theory Spec2Isabelle
  imports Main
begin

unbundle bit_operations_syntax

section \<open>Constants and basic types of server.c\<close>

text \<open>
  The server is a C program over POSIX system calls.  The embedding keeps the control
  flow of each function of \<^verbatim>\<open>server.c\<close> and makes everything the operating system
  decides an explicit input: the result of every system call the code inspects is read
  from an environment value, and every system call the code issues is recorded, in
  order, as an \<open>action\<close>.  A store outside an array's bounds is undefined behaviour in C;
  the model returns \<open>None\<close> there.
\<close>

definition MAX_EVENTS :: nat where
  "MAX_EVENTS = 64"

definition MAX_WORKERS :: int where
  "MAX_WORKERS = 32"

definition BUFFER_SIZE :: nat where
  "BUFFER_SIZE = 4096"

text \<open>The range of the C type \<^verbatim>\<open>int\<close> (32 bits, two's complement).\<close>

definition INT_MIN :: int where
  "INT_MIN = - (2 ^ 31)"

definition INT_MAX :: int where
  "INT_MAX = 2 ^ 31 - 1"

definition is_c_int :: "int \<Rightarrow> bool" where
  "is_c_int i \<longleftrightarrow> INT_MIN \<le> i \<and> i \<le> INT_MAX"

type_synonym fd = int

text \<open>The values of \<^verbatim>\<open>errno\<close> the code tests for, and any other error code.\<close>

datatype errno = EINTR | EAGAIN | EWOULDBLOCK | EOTHER nat

datatype epoll_flag = EPOLLIN | EPOLLERR | EPOLLHUP | EPOLLET

text \<open>
  What a thread does to the outside world: each system call with the arguments the
  code passes, each line printed to standard output, each \<^verbatim>\<open>perror\<close>.
  \<open>SysWrite fd bs\<close> is \<^verbatim>\<open>write(fd, buf, n)\<close> with \<open>bs\<close> the first \<open>n\<close> bytes of
  \<open>buf\<close>; the code never inspects what \<^verbatim>\<open>write\<close> or \<^verbatim>\<open>close\<close> return.
  \<open>SysEpollCtlAdd epfd fd flags ok\<close> is \<^verbatim>\<open>epoll_ctl(epfd, EPOLL_CTL_ADD, fd, ...)\<close>
  with \<open>ok\<close> telling whether the kernel registered \<open>fd\<close> (the call returned 0).
  \<open>Sigpipe\<close> is the end of the process: a \<^verbatim>\<open>write\<close> raised \<^verbatim>\<open>SIGPIPE\<close>, which the
  program neither handles nor ignores (\<^verbatim>\<open>main\<close> installs handlers for
  \<^verbatim>\<open>SIGINT\<close> and \<^verbatim>\<open>SIGTERM\<close> only), so the process is terminated inside the call.
\<close>

datatype action =
    SysRead fd nat
  | SysWrite fd string
  | SysClose fd
  | SysAccept fd
  | SysFcntlGetfl fd
  | SysFcntlSetfl fd int
  | SysEpollWait fd nat int
  | SysEpollCtlAdd fd fd "epoll_flag set" bool
  | SysEpollCtlDel fd fd
  | Stdout string
  | Perror string
  | Sigpipe

section \<open>C strings and formatted output\<close>

definition NUL :: char where
  "NUL = CHR 0x00"

definition CR :: char where
  "CR = CHR 0x0D"

definition LF :: char where
  "LF = CHR 0x0A"

text \<open>\<^verbatim>\<open>strlen\<close>: the number of bytes before the first NUL byte.\<close>

definition strlen :: "string \<Rightarrow> nat" where
  "strlen buf = length (takeWhile (\<lambda>c. c \<noteq> NUL) buf)"

text \<open>The C string held in a buffer, as \<^verbatim>\<open>%s\<close> reads it.\<close>

definition c_str :: "string \<Rightarrow> string" where
  "c_str buf = take (strlen buf) buf"

definition digit_char :: "nat \<Rightarrow> char" where
  "digit_char d = char_of (48 + d)"

fun dec_nat :: "nat \<Rightarrow> string" where
  "dec_nat n = (if n < 10 then [digit_char n] else dec_nat (n div 10) @ [digit_char (n mod 10)])"

declare dec_nat.simps [simp del]

text \<open>The conversion \<^verbatim>\<open>%d\<close>: decimal digits, with a minus sign for a negative value.\<close>

definition show_int :: "int \<Rightarrow> string" where
  "show_int i = (if i < 0 then CHR ''-'' # dec_nat (nat (- i)) else dec_nat (nat i))"

datatype fmt_arg = ArgInt int | ArgStr string

text \<open>
  The part of \<^verbatim>\<open>printf\<close> formatting the program uses: \<^verbatim>\<open>%d\<close> and \<^verbatim>\<open>%s\<close>
  consume the next argument, every other byte of the format is copied.
\<close>

fun c_format :: "string \<Rightarrow> fmt_arg list \<Rightarrow> string" where
  "c_format [] args = []"
| "c_format [c] args = [c]"
| "c_format (c # d # fmt) args =
     (if c = CHR ''%'' \<and> d = CHR ''d'' then
        (case args of ArgInt i # rest \<Rightarrow> show_int i @ c_format fmt rest | _ \<Rightarrow> [])
      else if c = CHR ''%'' \<and> d = CHR ''s'' then
        (case args of ArgStr s # rest \<Rightarrow> s @ c_format fmt rest | _ \<Rightarrow> [])
      else c # c_format (d # fmt) args)"

text \<open>
  \<^verbatim>\<open>snprintf(buf, n, fmt, ...)\<close> into a buffer of \<open>cap\<close> bytes: at most
  \<open>n - 1\<close> bytes of the formatted text are stored, followed by a NUL byte.  The
  result is the bytes stored, or \<open>None\<close> when they do not fit the buffer.
\<close>

definition snprintf :: "nat \<Rightarrow> nat \<Rightarrow> string \<Rightarrow> fmt_arg list \<Rightarrow> string option" where
  "snprintf cap n fmt args =
     (let stored = take (n - 1) (c_format fmt args) @ [NUL]
      in if n = 0 then Some [] else if length stored \<le> cap then Some stored else None)"

section \<open>Buffers\<close>

text \<open>\<^verbatim>\<open>buf[i] = c\<close>: undefined (\<open>None\<close>) outside the array.\<close>

definition store :: "string \<Rightarrow> nat \<Rightarrow> char \<Rightarrow> string option" where
  "store buf i c = (if i < length buf then Some (buf[i := c]) else None)"

text \<open>Copying \<open>bs\<close> to the start of \<open>buf\<close>: undefined when \<open>bs\<close> is longer than \<open>buf\<close>.\<close>

definition store_bytes :: "string \<Rightarrow> string \<Rightarrow> string option" where
  "store_bytes buf bs = (if length bs \<le> length buf then Some (bs @ drop (length bs) buf) else None)"

text \<open>
  \<^verbatim>\<open>read(fd, buf, count)\<close>.  The environment says what the socket delivers: an
  error code, or the bytes pending on the connection (none: the peer has closed).  The
  kernel transfers at most \<open>count\<close> of them into \<open>buf\<close> and returns how many; on an
  error it returns \<open>-1\<close> and leaves the buffer alone.
\<close>

definition sys_read :: "errno + string \<Rightarrow> string \<Rightarrow> nat \<Rightarrow> (int \<times> string) option" where
  "sys_read outcome buf count =
     (case outcome of
        Inl e \<Rightarrow> Some (- 1, buf)
      | Inr pending \<Rightarrow>
          (let got = take count pending
           in map_option (\<lambda>buf'. (int (length got), buf')) (store_bytes buf got)))"

section \<open>The connection handler\<close>

text \<open>
  What \<^verbatim>\<open>write\<close> on a socket does: it takes some of the bytes and returns their
  number (fewer than asked for on a short write), or fails with an error code, or, on
  a connection the peer has closed and reset, raises \<^verbatim>\<open>SIGPIPE\<close>.
\<close>

datatype write_result = Written nat | WriteError errno | WriteSigpipe

text \<open>
  What the handler meets: the outcome of its one \<^verbatim>\<open>read\<close>, the bytes the
  uninitialised stack array \<^verbatim>\<open>buffer\<close> happens to hold on entry, and the outcome
  of its \<^verbatim>\<open>write\<close>, should it come to one.
\<close>

record handler_env =
  read_outcome :: "errno + string"
  stack_bytes :: "nat \<Rightarrow> char"
  write_outcome :: write_result

definition response :: string where
  "response = ''HTTP/1.1 200 OK'' @ [CR, LF] @
              ''Content-Type: text/plain'' @ [CR, LF] @
              ''Connection: close'' @ [CR, LF] @
              [CR, LF] @
              ''Hello from worker %d!'' @ [LF]"

definition handle_connection :: "handler_env \<Rightarrow> fd \<Rightarrow> int \<Rightarrow> action list option" where
  "handle_connection env client_fd worker_id =
     (let buffer = map (stack_bytes env) [0..<BUFFER_SIZE];
          count = length buffer - 1 in
      case sys_read (read_outcome env) buffer count of
        None \<Rightarrow> None
      | Some (bytes_read, buffer) \<Rightarrow>
          if bytes_read > 0 then
            (case store buffer (nat bytes_read) NUL of
               None \<Rightarrow> None
             | Some buffer \<Rightarrow>
                 (case snprintf 512 512 response [ArgInt worker_id] of
                    None \<Rightarrow> None
                  | Some formatted_response \<Rightarrow>
                      Some ([SysRead client_fd count,
                             Stdout (c_format ''Worker %d received: %s''
                                       [ArgInt worker_id, ArgStr (c_str buffer)]),
                             SysWrite client_fd
                               (take (strlen formatted_response) formatted_response)] @
                            (case write_outcome env of
                               WriteSigpipe \<Rightarrow> [Sigpipe]
                             | _ \<Rightarrow> [SysClose client_fd]))))
          else if bytes_read = 0 then
            Some [SysRead client_fd count,
                  Stdout (c_format (''Worker %d: Client closed connection'' @ [LF])
                            [ArgInt worker_id])]
          else
            (case read_outcome env of
               Inl e \<Rightarrow>
                 if e \<noteq> EAGAIN \<and> e \<noteq> EWOULDBLOCK
                 then Some [SysRead client_fd count, Perror ''read'']
                 else Some [SysRead client_fd count]
             | Inr _ \<Rightarrow> Some [SysRead client_fd count]))"

section \<open>The worker event loop\<close>

text \<open>
  The fields of \<^verbatim>\<open>worker_t\<close> the loops read (the thread handle is only joined at
  shutdown), and a ready event as \<^verbatim>\<open>epoll_wait\<close> reports it: the set of its flag
  bits and the descriptor stored in \<^verbatim>\<open>data.fd\<close>.
\<close>

record worker_t =
  epoll_fd :: fd
  worker_id :: int

record epoll_event =
  events :: "epoll_flag set"
  data_fd :: fd

text \<open>
  What one \<^verbatim>\<open>epoll_wait\<close> returns: \<open>-1\<close> with an error code, or the ready events
  (none on a timeout), each with what a read on its descriptor would meet.  The kernel
  reports at most \<^verbatim>\<open>maxevents\<close> of them.
\<close>

datatype wait_outcome = WaitError errno | WaitReady "(epoll_event \<times> handler_env) list"

datatype loop_ctl = Continue | Break

text \<open>
  The body of the \<^verbatim>\<open>for\<close> loop of \<^verbatim>\<open>worker_thread\<close>, for one event, and the
  loop.  When the handler's write ends the process nothing follows.
\<close>

definition handle_event :: "worker_t \<Rightarrow> epoll_event \<times> handler_env \<Rightarrow> action list option" where
  "handle_event worker e =
     (case (if EPOLLIN \<in> events (fst e)
            then handle_connection (snd e) (data_fd (fst e)) (worker_id worker)
            else Some []) of
        None \<Rightarrow> None
      | Some handled \<Rightarrow>
          if Sigpipe \<in> set handled then Some handled
          else
            Some (handled @
              (if events (fst e) \<inter> {EPOLLERR, EPOLLHUP} \<noteq> {}
               then [Stdout (c_format (''Worker %d: Client disconnected'' @ [LF])
                               [ArgInt (worker_id worker)]),
                     SysEpollCtlDel (epoll_fd worker) (data_fd (fst e)),
                     SysClose (data_fd (fst e))]
               else [])))"

fun handle_events :: "worker_t \<Rightarrow> (epoll_event \<times> handler_env) list \<Rightarrow> action list option" where
  "handle_events worker [] = Some []"
| "handle_events worker (e # es) =
     (case handle_event worker e of
        None \<Rightarrow> None
      | Some acts \<Rightarrow>
          if Sigpipe \<in> set acts then Some acts
          else map_option (\<lambda>more. acts @ more) (handle_events worker es))"

text \<open>
  One pass through the body of \<^verbatim>\<open>while (running)\<close> in \<^verbatim>\<open>worker_thread\<close>: the
  wait, then \<^verbatim>\<open>continue\<close>, \<^verbatim>\<open>break\<close> or the events in order.
\<close>

definition worker_iteration :: "worker_t \<Rightarrow> wait_outcome \<Rightarrow> (loop_ctl \<times> action list) option" where
  "worker_iteration worker outcome =
     (let wait = SysEpollWait (epoll_fd worker) MAX_EVENTS 1000 in
      case outcome of
        WaitError e \<Rightarrow>
          if e = EINTR then Some (Continue, [wait])
          else Some (Break, [wait, Perror ''epoll_wait''])
      | WaitReady ready \<Rightarrow>
          map_option (\<lambda>acts. (Continue, wait # acts))
            (handle_events worker (take MAX_EVENTS ready)))"

section \<open>The acceptor\<close>

text \<open>
  The value of \<^verbatim>\<open>O_NONBLOCK\<close> in the Linux headers.  \<^verbatim>\<open>a % b\<close> in C truncates
  towards zero and is undefined for \<open>b = 0\<close>; \<^verbatim>\<open>a + b\<close> on \<^verbatim>\<open>int\<close> is undefined
  when the sum leaves the type's range.
\<close>

definition O_NONBLOCK :: int where
  "O_NONBLOCK = 2048"

definition c_add :: "int \<Rightarrow> int \<Rightarrow> int option" where
  "c_add a b = (if is_c_int (a + b) then Some (a + b) else None)"

definition c_rem :: "int \<Rightarrow> int \<Rightarrow> int option" where
  "c_rem a b = (if b = 0 then None else Some (sgn a * (\<bar>a\<bar> mod \<bar>b\<bar>)))"

text \<open>
  What one pass of the accept loop meets: the result of \<^verbatim>\<open>accept\<close> (an error code or
  the new descriptor, with the peer's address as \<^verbatim>\<open>inet_ntoa\<close> and \<^verbatim>\<open>ntohs\<close>
  render it), of the two \<^verbatim>\<open>fcntl\<close> calls and of \<^verbatim>\<open>epoll_ctl\<close>.
\<close>

record accept_env =
  accept_outcome :: "errno + fd"
  peer_addr :: string
  peer_port :: int
  getfl_outcome :: "errno + int"
  setfl_outcome :: "errno + unit"
  epoll_add_outcome :: "errno + unit"

definition make_socket_non_blocking :: "fd \<Rightarrow> accept_env \<Rightarrow> int \<times> action list" where
  "make_socket_non_blocking sfd env =
     (case getfl_outcome env of
        Inl e \<Rightarrow> (- 1, [SysFcntlGetfl sfd, Perror ''fcntl F_GETFL''])
      | Inr flags \<Rightarrow>
          (case setfl_outcome env of
             Inl e \<Rightarrow> (- 1, [SysFcntlGetfl sfd, SysFcntlSetfl sfd (flags OR O_NONBLOCK),
                             Perror ''fcntl F_SETFL O_NONBLOCK''])
           | Inr _ \<Rightarrow> (0, [SysFcntlGetfl sfd, SysFcntlSetfl sfd (flags OR O_NONBLOCK)])))"

text \<open>
  One pass through the body of \<^verbatim>\<open>while (running)\<close> in \<^verbatim>\<open>main\<close>.  The result says
  how the pass ends (\<^verbatim>\<open>continue\<close> and falling off the end of the body are both
  \<open>Continue\<close>), the value of \<^verbatim>\<open>current_worker\<close> after it, and what it did.
  Reading \<^verbatim>\<open>workers[current_worker]\<close> outside the array is undefined.
\<close>

record iteration =
  ctl :: loop_ctl
  cursor :: int
  actions :: "action list"

definition acceptor_iteration ::
  "worker_t list \<Rightarrow> int \<Rightarrow> fd \<Rightarrow> int \<Rightarrow> accept_env \<Rightarrow> iteration option" where
  "acceptor_iteration workers num_workers server_fd current_worker env =
     (case accept_outcome env of
        Inl e \<Rightarrow>
          if e = EINTR \<or> e = EAGAIN \<or> e = EWOULDBLOCK
          then Some \<lparr>ctl = Continue, cursor = current_worker,
                      actions = [SysAccept server_fd]\<rparr>
          else Some \<lparr>ctl = Break, cursor = current_worker,
                      actions = [SysAccept server_fd, Perror ''accept'']\<rparr>
      | Inr client_fd \<Rightarrow>
          (case make_socket_non_blocking client_fd env of
             (rc, nb_acts) \<Rightarrow>
               if rc = - 1
               then Some \<lparr>ctl = Continue, cursor = current_worker,
                           actions = SysAccept server_fd # nb_acts @ [SysClose client_fd]\<rparr>
               else if \<not> (0 \<le> current_worker \<and> nat current_worker < length workers)
               then None
               else
                 (let add = SysEpollCtlAdd (epoll_fd (workers ! nat current_worker))
                              client_fd {EPOLLIN, EPOLLET} in
                  case epoll_add_outcome env of
                    Inl e \<Rightarrow>
                      Some \<lparr>ctl = Continue, cursor = current_worker,
                             actions = SysAccept server_fd # nb_acts @
                                    [add False, Perror ''epoll_ctl'', SysClose client_fd]\<rparr>
                  | Inr _ \<Rightarrow>
                      (case Option.bind (c_add current_worker 1) (\<lambda>n. c_rem n num_workers) of
                         None \<Rightarrow> None
                       | Some next_worker \<Rightarrow>
                           Some \<lparr>ctl = Continue, cursor = next_worker,
                                  actions = SysAccept server_fd # nb_acts @
                                    [add True,
                                     Stdout (c_format
                                       (''New connection from %s:%d assigned to worker %d'' @ [LF])
                                       [ArgStr (peer_addr env), ArgInt (peer_port env),
                                        ArgInt current_worker])]\<rparr>))))"

section \<open>The process: startup, the threads' turns, the signal handler\<close>

text \<open>
  The pool size \<^verbatim>\<open>main\<close> computes; \<open>nprocs\<close> is what
  \<^verbatim>\<open>sysconf(_SC_NPROCESSORS_ONLN)\<close> stored in the \<^verbatim>\<open>int\<close> \<^verbatim>\<open>num_workers\<close>
  (\<open>-1\<close> when the count cannot be determined).
\<close>

definition init_num_workers :: "int \<Rightarrow> int" where
  "init_num_workers nprocs = (if nprocs \<le> 0 \<or> nprocs > MAX_WORKERS then 4 else nprocs)"

text \<open>
  The shared state of the running process: the globals \<^verbatim>\<open>running\<close>,
  \<^verbatim>\<open>server_fd\<close>, \<^verbatim>\<open>num_workers\<close> and \<^verbatim>\<open>workers\<close>, the local
  \<^verbatim>\<open>current_worker\<close> of \<^verbatim>\<open>main\<close>, and where each thread stands: whether
  \<^verbatim>\<open>main\<close> is still in its accept loop, and which worker threads have left their loop.
  \<open>listening\<close> says whether the listening socket is open, and \<open>trace\<close> lists
  everything the threads did, in the order of their turns.
\<close>

record server =
  running :: bool
  server_fd :: fd
  listening :: bool
  num_workers :: int
  workers :: "worker_t list"
  current_worker :: int
  accepting :: bool
  returned :: "nat set"
  trace :: "action list"

text \<open>
  The state when \<^verbatim>\<open>main\<close> reaches its accept loop, every startup call having
  succeeded (a failing one ends the process with \<^verbatim>\<open>exit(EXIT_FAILURE)\<close> before any
  loop runs): \<open>sfd\<close> is the listening socket, \<open>epfds i\<close> the descriptor
  \<^verbatim>\<open>epoll_create1\<close> returned for worker \<open>i\<close>.
\<close>

definition startup :: "int \<Rightarrow> fd \<Rightarrow> (nat \<Rightarrow> fd) \<Rightarrow> server" where
  "startup nprocs sfd epfds =
     \<lparr>running = True,
      server_fd = sfd,
      listening = True,
      num_workers = init_num_workers nprocs,
      workers = map (\<lambda>i. \<lparr>epoll_fd = epfds i, worker_id = int i\<rparr>)
                  [0..<nat (init_num_workers nprocs)],
      current_worker = 0,
      accepting = True,
      returned = {},
      trace = []\<rparr>"

definition signal_handler :: "int \<Rightarrow> server \<Rightarrow> server" where
  "signal_handler signum s =
     s\<lparr>running := False,
       listening := False,
       trace := trace s @
         [Stdout (c_format (LF # ''Received signal %d, shutting down...'' @ [LF])
                    [ArgInt signum]),
          SysClose (server_fd s)]\<rparr>"

text \<open>
  A turn of the main thread: the test of \<^verbatim>\<open>while (running)\<close> and, when it holds,
  one pass through the body.
\<close>

definition acceptor_turn :: "accept_env \<Rightarrow> server \<Rightarrow> server option" where
  "acceptor_turn env s =
     (if \<not> accepting s then Some s
      else if \<not> running s then Some (s\<lparr>accepting := False\<rparr>)
      else
        case acceptor_iteration (workers s) (num_workers s) (server_fd s)
               (current_worker s) env of
          None \<Rightarrow> None
        | Some it \<Rightarrow>
            Some (s\<lparr>current_worker := cursor it,
                    accepting := (ctl it = Continue),
                    trace := trace s @ actions it\<rparr>))"

text \<open>The same for worker thread \<open>i\<close>.\<close>

definition worker_turn :: "nat \<Rightarrow> wait_outcome \<Rightarrow> server \<Rightarrow> server option" where
  "worker_turn i outcome s =
     (if \<not> i < length (workers s) \<or> i \<in> returned s then Some s
      else if \<not> running s then Some (s\<lparr>returned := insert i (returned s)\<rparr>)
      else
        case worker_iteration (workers s ! i) outcome of
          None \<Rightarrow> None
        | Some (c, done_acts) \<Rightarrow>
            Some (s\<lparr>returned := (if c = Break then insert i (returned s) else returned s),
                    trace := trace s @ done_acts\<rparr>))"

text \<open>
  The threads interleave turn by turn, each turn being one test of \<^verbatim>\<open>running\<close> and
  one pass through a loop body; a signal may arrive between any two turns, in whatever
  thread.  The messages \<^verbatim>\<open>main\<close> and the workers print outside their loops, and the
  joins after the accept loop, are not part of the model.

  When a handler's write raises \<^verbatim>\<open>SIGPIPE\<close> the worker's turn, and with it the
  process, ends there: \<open>Sigpipe\<close> is the last action of the turn.  The process takes
  no turn after it, so what the process does is a run cut after the first turn that
  ends in \<open>Sigpipe\<close>.  A run cut short is a run, so what is shown of every run holds of
  these.
\<close>

datatype event = Signal int | AcceptorTurn accept_env | WorkerTurn nat wait_outcome

definition step :: "event \<Rightarrow> server \<Rightarrow> server option" where
  "step e s =
     (case e of
        Signal signum \<Rightarrow> Some (signal_handler signum s)
      | AcceptorTurn env \<Rightarrow> acceptor_turn env s
      | WorkerTurn i outcome \<Rightarrow> worker_turn i outcome s)"

fun run :: "event list \<Rightarrow> server \<Rightarrow> server option" where
  "run [] s = Some s"
| "run (e # es) s = (case step e s of None \<Rightarrow> None | Some s' \<Rightarrow> run es s')"

section \<open>Observations on what a thread did\<close>

text \<open>The \<^verbatim>\<open>write\<close> calls among some actions, and the descriptors closed, in order.\<close>

definition written :: "action list \<Rightarrow> (fd \<times> string) list" where
  "written as = concat (map (\<lambda>a. case a of SysWrite d bs \<Rightarrow> [(d, bs)] | _ \<Rightarrow> []) as)"

definition closed :: "action list \<Rightarrow> fd list" where
  "closed as = concat (map (\<lambda>a. case a of SysClose d \<Rightarrow> [d] | _ \<Rightarrow> []) as)"

text \<open>
  The registrations that succeeded among some actions, each as the multiplexer and
  the connection's descriptor, and the number of them on one multiplexer: the
  connections assigned to its worker.
\<close>

definition adds :: "action list \<Rightarrow> (fd \<times> fd) list" where
  "adds as =
     concat (map (\<lambda>a. case a of SysEpollCtlAdd ep d fl ok \<Rightarrow> if ok then [(ep, d)] else []
                       | _ \<Rightarrow> []) as)"

definition registered_on :: "fd \<Rightarrow> action list \<Rightarrow> nat" where
  "registered_on ep as = length (filter (\<lambda>r. fst r = ep) (adds as))"

text \<open>The number of turns of the acceptor among some events in which \<^verbatim>\<open>accept\<close> returns a connection.\<close>

definition accepts :: "event list \<Rightarrow> nat" where
  "accepts evs =
     length (filter (\<lambda>e. case e of AcceptorTurn env \<Rightarrow> \<not> isl (accept_outcome env)
                          | _ \<Rightarrow> False) evs)"

section \<open>Reachable states and example inputs\<close>

text \<open>
  What holds of the pool in every state the process reaches: between one and
  \<^verbatim>\<open>MAX_WORKERS\<close> workers, as many array entries, and the round-robin cursor inside
  the array.
\<close>

definition pool_ok :: "server \<Rightarrow> bool" where
  "pool_ok s \<longleftrightarrow>
     1 \<le> num_workers s \<and> num_workers s \<le> MAX_WORKERS \<and>
     int (length (workers s)) = num_workers s \<and>
     0 \<le> current_worker s \<and> current_worker s < num_workers s"

text \<open>
  An accepted connection is registered when both \<^verbatim>\<open>fcntl\<close> calls and
  \<^verbatim>\<open>epoll_ctl\<close> succeed.
\<close>

definition registration_succeeds :: "accept_env \<Rightarrow> bool" where
  "registration_succeeds env \<longleftrightarrow>
     \<not> isl (getfl_outcome env) \<and> \<not> isl (setfl_outcome env) \<and> \<not> isl (epoll_add_outcome env)"

text \<open>
  Concrete inputs for the examples: the descriptors of four workers, and an accepted
  connection (descriptor 9) whose registration ends as given.
\<close>

definition example_epfds :: "nat \<Rightarrow> fd" where
  "example_epfds i = 4 + int i"

definition example_accept :: "errno + unit \<Rightarrow> accept_env" where
  "example_accept add_result =
     \<lparr>accept_outcome = Inr 9, peer_addr = ''127.0.0.1'', peer_port = 50000,
      getfl_outcome = Inr 2, setfl_outcome = Inr (), epoll_add_outcome = add_result\<rparr>"

text \<open>
  The number of positions \<open>k < M\<close> of a rotation over \<open>N\<close> workers starting at \<open>c\<close>
  that fall on worker \<open>w\<close>.
\<close>

definition turns :: "int \<Rightarrow> int \<Rightarrow> int \<Rightarrow> nat \<Rightarrow> nat" where
  "turns N c w M = length (filter (\<lambda>k. (c + int k) mod N = w) [0..<M])"

text \<open>
  A run for the examples: six connections are accepted and registered; between them
  one more is accepted but fails to register, and a worker takes a turn.
\<close>

definition example_events :: "event list" where
  "example_events =
     [AcceptorTurn (example_accept (Inr ())), AcceptorTurn (example_accept (Inr ())),
      AcceptorTurn (example_accept (Inl (EOTHER 28))), AcceptorTurn (example_accept (Inr ())),
      WorkerTurn 0 (WaitReady []), AcceptorTurn (example_accept (Inr ())),
      AcceptorTurn (example_accept (Inr ())), AcceptorTurn (example_accept (Inr ()))]"

text \<open>
  Four connections are accepted; the third cannot be made non-blocking and is dropped.
\<close>

definition example_dropped :: "event list" where
  "example_dropped =
     [AcceptorTurn (example_accept (Inr ())), AcceptorTurn (example_accept (Inr ())),
      AcceptorTurn ((example_accept (Inr ()))\<lparr>getfl_outcome := Inl (EOTHER 9)\<rparr>),
      AcceptorTurn (example_accept (Inr ()))]"

section \<open>Formatted output: helper lemmas\<close>









lemma takeWhile_stop: "\<not> P y \<Longrightarrow> takeWhile P (xs @ y # ys) = takeWhile P xs"
  by (induction xs) auto


lemma strlen_le: "strlen (s @ [NUL]) \<le> length s"
proof -
  have "takeWhile (\<lambda>c. c \<noteq> NUL) (s @ NUL # []) = takeWhile (\<lambda>c. c \<noteq> NUL) s"
    by (rule takeWhile_stop) simp
  thus ?thesis using length_takeWhile_le [of "\<lambda>c. c \<noteq> NUL" s] by (simp add: strlen_def)
qed

lemma c_str_takeWhile: "c_str buf = takeWhile (\<lambda>c. c \<noteq> NUL) buf"
  by (simp add: c_str_def strlen_def takeWhile_eq_take [symmetric])

lemma c_str_terminated:
  assumes "length got < length buf"
  shows "c_str ((got @ drop (length got) buf)[length got := NUL]) =
           takeWhile (\<lambda>c. c \<noteq> NUL) got"
proof -
  from assms obtain y ys where d: "drop (length got) buf = y # ys"
    by (cases "drop (length got) buf") auto
  have "(got @ drop (length got) buf)[length got := NUL] = got @ NUL # ys"
    by (simp add: d list_update_append)
  thus ?thesis by (simp add: c_str_takeWhile takeWhile_stop)
qed

text \<open>
  \<^verbatim>\<open>snprintf\<close> with the size of its buffer never overruns it, and what
  \<^verbatim>\<open>strlen\<close> then measures is shorter than the buffer.
\<close>

lemma snprintf_fits:
  "snprintf 512 512 fmt args = Some (take 511 (c_format fmt args) @ [NUL])"
  by (simp add: snprintf_def Let_def)

lemma log_received:
  "c_format ''Worker %d received: %s'' [ArgInt w, ArgStr s] =
     ''Worker '' @ show_int w @ '' received: '' @ s"
  by simp

section \<open>The connection handler: its three branches\<close>

lemma sys_read_data:
  assumes "count \<le> length buf"
  shows "sys_read (Inr req) buf count =
           Some (int (length (take count req)),
                 take count req @ drop (length (take count req)) buf)"
  using assms by (simp add: sys_read_def store_bytes_def Let_def)

lemma handle_connection_data:
  assumes r: "read_outcome env = Inr req" and ne: "req \<noteq> []"
  shows "handle_connection env client_fd wid =
     Some ([SysRead client_fd (BUFFER_SIZE - 1),
            Stdout (''Worker '' @ show_int wid @ '' received: '' @
                    takeWhile (\<lambda>c. c \<noteq> NUL) (take (BUFFER_SIZE - 1) req)),
            SysWrite client_fd
              (take (strlen (take 511 (c_format response [ArgInt wid]) @ [NUL]))
                 (take 511 (c_format response [ArgInt wid]) @ [NUL]))] @
           (if write_outcome env = WriteSigpipe then [Sigpipe] else [SysClose client_fd]))"
proof -
  define buf where "buf = map (stack_bytes env) [0..<BUFFER_SIZE]"
  define got where "got = take (BUFFER_SIZE - 1) req"
  have lb: "length buf = BUFFER_SIZE" by (simp add: buf_def)
  have pos: "0 < BUFFER_SIZE - 1" by (simp add: BUFFER_SIZE_def)
  have lg: "length got < length buf" "0 < length got"
    using ne pos by (auto simp: got_def lb BUFFER_SIZE_def min_def)
  have rd: "sys_read (read_outcome env) buf (length buf - 1) =
              Some (int (length got), got @ drop (length got) buf)"
    unfolding r got_def lb by (rule sys_read_data) (simp add: lb)
  have st: "store (got @ drop (length got) buf) (nat (int (length got))) NUL =
              Some ((got @ drop (length got) buf)[length got := NUL])"
    using lg by (simp add: store_def)
  have wo: "(case write_outcome env of WriteSigpipe \<Rightarrow> [Sigpipe] | _ \<Rightarrow> [SysClose client_fd]) =
            (if write_outcome env = WriteSigpipe then [Sigpipe] else [SysClose client_fd])"
    by (cases "write_outcome env") simp_all
  have "handle_connection env client_fd wid =
     Some ([SysRead client_fd (length buf - 1),
            Stdout (''Worker '' @ show_int wid @ '' received: '' @
                    takeWhile (\<lambda>c. c \<noteq> NUL) got),
            SysWrite client_fd
              (take (strlen (take 511 (c_format response [ArgInt wid]) @ [NUL]))
                 (take 511 (c_format response [ArgInt wid]) @ [NUL]))] @
           (if write_outcome env = WriteSigpipe then [Sigpipe] else [SysClose client_fd]))"
    unfolding handle_connection_def buf_def [symmetric] Let_def rd
    using lg(2)
    by (simp only: st snprintf_fits log_received wo
          c_str_terminated [OF lg(1)] option.case prod.case of_nat_0_less_iff if_True)
  thus ?thesis by (simp only: lb got_def)
qed

lemma handle_connection_eof:
  assumes r: "read_outcome env = Inr []"
  shows "handle_connection env client_fd wid =
     Some [SysRead client_fd (BUFFER_SIZE - 1),
           Stdout (''Worker '' @ show_int wid @ '': Client closed connection'' @ [LF])]"
  unfolding handle_connection_def Let_def r
  by (simp add: sys_read_def store_bytes_def LF_def)

lemma handle_connection_error:
  assumes r: "read_outcome env = Inl e"
  shows "handle_connection env client_fd wid =
     Some (if e \<noteq> EAGAIN \<and> e \<noteq> EWOULDBLOCK
           then [SysRead client_fd (BUFFER_SIZE - 1), Perror ''read'']
           else [SysRead client_fd (BUFFER_SIZE - 1)])"
  unfolding handle_connection_def Let_def r
  by (simp add: sys_read_def)

text \<open>The handler always returns, and registers nothing.\<close>

lemma handle_connection_total:
  "\<exists>acts. handle_connection env d w = Some acts \<and> adds acts = []"
proof (cases "read_outcome env")
  case (Inl e)
  then show ?thesis by (simp add: handle_connection_error adds_def)
next
  case (Inr req)
  then show ?thesis
    by (cases "req = []") (simp_all add: handle_connection_eof handle_connection_data adds_def)
qed

text \<open>
  The bound on the read matters: had the code asked \<^verbatim>\<open>read\<close> for the whole buffer,
  a full read would put the terminator one past its end.
\<close>

lemma read_into_whole_buffer_overruns:
  assumes "length buf \<le> length pending"
  shows "sys_read (Inr pending) buf (length buf) = Some (n, buf') \<Longrightarrow>
           store buf' (nat n) NUL = None"
  using assms by (auto simp: sys_read_def store_bytes_def store_def Let_def)

lemma show_int_3: "show_int 3 = ''3''"
  by code_simp

section \<open>The loops: helper lemmas\<close>

lemma adds_append: "adds (xs @ ys) = adds xs @ adds ys"
  by (simp add: adds_def)

lemma handle_event_total: "\<exists>acts. handle_event w e = Some acts \<and> adds acts = []"
proof -
  obtain a where "handle_connection (snd e) (data_fd (fst e)) (worker_id w) = Some a"
    "adds a = []"
    using handle_connection_total by blast
  thus ?thesis by (auto simp: handle_event_def adds_append) (simp_all add: adds_def)
qed

lemma handle_events_total: "\<exists>acts. handle_events w es = Some acts \<and> adds acts = []"
proof (induction es)
  case Nil
  show ?case by (simp add: adds_def)
next
  case (Cons e es)
  obtain a where a: "handle_event w e = Some a" "adds a = []"
    using handle_event_total by blast
  from Cons obtain b where "handle_events w es = Some b" "adds b = []" by blast
  with a show ?case by (simp add: adds_append)
qed

lemma worker_iteration_ready:
  "\<exists>acts. worker_iteration w (WaitReady ready) =
            Some (Continue, SysEpollWait (epoll_fd w) MAX_EVENTS 1000 # acts) \<and> adds acts = []"
proof -
  obtain a where "handle_events w (take MAX_EVENTS ready) = Some a" "adds a = []"
    using handle_events_total by blast
  thus ?thesis by (simp add: worker_iteration_def)
qed

lemma worker_iteration_total:
  "\<exists>c acts. worker_iteration w wo = Some (c, SysEpollWait (epoll_fd w) MAX_EVENTS 1000 # acts)
      \<and> adds acts = []"
proof (cases wo)
  case (WaitError e)
  then show ?thesis
    by (cases "e = EINTR") (simp_all add: worker_iteration_def Let_def adds_def)
next
  case (WaitReady ready)
  then show ?thesis using worker_iteration_ready [of w ready] by auto
qed

lemma worker_turn_frame:
  "\<exists>s' new. worker_turn i wo s = Some s' \<and> running s' = running s \<and> listening s' = listening s
       \<and> num_workers s' = num_workers s \<and> workers s' = workers s
       \<and> current_worker s' = current_worker s \<and> accepting s' = accepting s
       \<and> server_fd s' = server_fd s
       \<and> trace s' = trace s @ new \<and> adds new = []"
proof -
  obtain c a where w: "worker_iteration (workers s ! i) wo =
      Some (c, SysEpollWait (epoll_fd (workers s ! i)) MAX_EVENTS 1000 # a)" "adds a = []"
    using worker_iteration_total by blast
  have e: "adds [] = []" "adds (SysEpollWait (epoll_fd (workers s ! i)) MAX_EVENTS 1000 # a) = []"
    using w(2) by (simp_all add: adds_def)
  show ?thesis
  proof (cases "\<not> i < length (workers s) \<or> i \<in> returned s \<or> \<not> running s")
    case True
    then show ?thesis using e(1) by (auto simp: worker_turn_def intro!: exI [of _ "[]"])
  next
    case False
    then show ?thesis using w(1) e(2)
      by (auto simp: worker_turn_def
               intro!: exI [of _ "SysEpollWait (epoll_fd (workers s ! i)) MAX_EVENTS 1000 # a"])
  qed
qed

lemma c_rem_nonneg: "0 \<le> a \<Longrightarrow> 0 < b \<Longrightarrow> c_rem a b = Some (a mod b)"
  by (cases "a = 0") (simp_all add: c_rem_def)

lemma next_worker:
  assumes "0 \<le> c" and "c < n" and "n \<le> MAX_WORKERS"
  shows "Option.bind (c_add c 1) (\<lambda>k. c_rem k n) = Some ((c + 1) mod n)"
proof -
  have "is_c_int (c + 1)" using assms
    by (simp add: is_c_int_def INT_MIN_def INT_MAX_def MAX_WORKERS_def)
  hence "c_add c 1 = Some (c + 1)" by (simp add: c_add_def)
  moreover have "c_rem (c + 1) n = Some ((c + 1) mod n)" using assms by (intro c_rem_nonneg) auto
  ultimately show ?thesis by simp
qed

lemma make_socket_non_blocking_rc:
  "fst (make_socket_non_blocking d env) =
     (if isl (getfl_outcome env) \<or> isl (setfl_outcome env) then - 1 else 0)"
  by (simp add: make_socket_non_blocking_def split: sum.splits)

lemma make_socket_non_blocking_adds: "adds (snd (make_socket_non_blocking d env)) = []"
  by (simp add: make_socket_non_blocking_def adds_def split: sum.splits)

lemma acceptor_iteration_accepted:
  assumes "0 \<le> c" and "c < n" and "n \<le> MAX_WORKERS" and "int (length ws) = n"
      and "accept_outcome env = Inr d"
  shows "\<exists>it. acceptor_iteration ws n sfd c env = Some it \<and> ctl it = Continue
          \<and> cursor it = (if registration_succeeds env then (c + 1) mod n else c)
          \<and> adds (actions it) =
               (if registration_succeeds env then [(epoll_fd (ws ! nat c), d)] else [])"
proof -
  have idx: "nat c < length ws" using assms by auto
  obtain rc a where m: "make_socket_non_blocking d env = (rc, a)"
    by (cases "make_socket_non_blocking d env")
  have rc: "rc = (if isl (getfl_outcome env) \<or> isl (setfl_outcome env) then - 1 else 0)"
    using make_socket_non_blocking_rc [of d env] m by simp
  have a: "adds a = []" using make_socket_non_blocking_adds [of d env] m by simp
  have ad: "adds (SysAccept sfd # a @ rest) = adds rest" for rest
    using a by (simp add: adds_def)
  show ?thesis
    using assms(1,5) idx rc
    by (cases "epoll_add_outcome env")
       (auto simp: acceptor_iteration_def m Let_def registration_succeeds_def ad
             next_worker [OF assms(1,2,3)], simp_all add: adds_def)
qed

lemma acceptor_iteration_not_accepted:
  assumes "accept_outcome env = Inl e"
  shows "\<exists>it. acceptor_iteration ws n sfd c env = Some it \<and> cursor it = c
           \<and> adds (actions it) = []"
  using assms by (simp add: acceptor_iteration_def adds_def)

lemma acceptor_iteration_total:
  assumes "0 \<le> c" and "c < n" and "n \<le> MAX_WORKERS" and "int (length ws) = n"
  shows "\<exists>it. acceptor_iteration ws n sfd c env = Some it
          \<and> (adds (actions it) = [] \<and> cursor it = c
             \<or> (\<exists>d. adds (actions it) = [(epoll_fd (ws ! nat c), d)])
                \<and> cursor it = (c + 1) mod n)"
proof (cases "accept_outcome env")
  case (Inl e)
  then show ?thesis using acceptor_iteration_not_accepted [of env e ws n sfd c] by auto
next
  case (Inr d)
  from acceptor_iteration_accepted [OF assms Inr, of sfd] show ?thesis
    by (cases "registration_succeeds env") auto
qed

lemma acceptor_turn_ok:
  assumes "pool_ok s"
  shows "\<exists>s' new. acceptor_turn env s = Some s' \<and> pool_ok s'
          \<and> num_workers s' = num_workers s \<and> workers s' = workers s
          \<and> running s' = running s \<and> listening s' = listening s
          \<and> returned s' = returned s \<and> server_fd s' = server_fd s
          \<and> trace s' = trace s @ new
          \<and> (adds new = [] \<and> current_worker s' = current_worker s
             \<or> (\<exists>d. adds new = [(epoll_fd (workers s ! nat (current_worker s)), d)])
                \<and> current_worker s' = (current_worker s + 1) mod num_workers s)"
proof -
  from assms have b: "0 \<le> current_worker s" "current_worker s < num_workers s"
    "num_workers s \<le> MAX_WORKERS" "int (length (workers s)) = num_workers s"
    by (simp_all add: pool_ok_def)
  obtain it where it: "acceptor_iteration (workers s) (num_workers s) (server_fd s)
                         (current_worker s) env = Some it"
    and c: "adds (actions it) = [] \<and> cursor it = current_worker s
             \<or> (\<exists>d. adds (actions it) = [(epoll_fd (workers s ! nat (current_worker s)), d)])
                \<and> cursor it = (current_worker s + 1) mod num_workers s"
    using acceptor_iteration_total [OF b] by blast
  have m: "0 \<le> (current_worker s + 1) mod num_workers s"
          "(current_worker s + 1) mod num_workers s < num_workers s"
    using b by simp_all
  have e: "adds [] = []" by (simp add: adds_def)
  show ?thesis
  proof (cases "accepting s \<and> running s")
    case False
    then show ?thesis using assms e
      by (auto simp: acceptor_turn_def pool_ok_def intro!: exI [of _ "[]"])
  next
    case True
    then show ?thesis using assms c m
      by (auto simp: acceptor_turn_def it pool_ok_def intro!: exI [of _ "actions it"])
  qed
qed

lemma signal_handler_frame:
  "current_worker (signal_handler n s) = current_worker s"
  "num_workers (signal_handler n s) = num_workers s"
  "workers (signal_handler n s) = workers s"
  "accepting (signal_handler n s) = accepting s"
  "returned (signal_handler n s) = returned s"
  "server_fd (signal_handler n s) = server_fd s"
  by (simp_all add: signal_handler_def)

lemma signal_handler_trace:
  "\<exists>new. trace (signal_handler n s) = trace s @ new \<and> adds new = []"
  by (simp add: signal_handler_def adds_def del: c_format.simps)

lemma step_ok:
  assumes "pool_ok s"
  shows "\<exists>s' new. step e s = Some s' \<and> pool_ok s'
          \<and> num_workers s' = num_workers s \<and> workers s' = workers s
          \<and> trace s' = trace s @ new
          \<and> (adds new = [] \<and> current_worker s' = current_worker s
             \<or> (\<exists>d. adds new = [(epoll_fd (workers s ! nat (current_worker s)), d)])
                \<and> current_worker s' = (current_worker s + 1) mod num_workers s)"
proof (cases e)
  case (Signal n)
  obtain new where "trace (signal_handler n s) = trace s @ new" "adds new = []"
    using signal_handler_trace by blast
  with assms Signal show ?thesis
    by (auto simp: step_def pool_ok_def signal_handler_frame)
next
  case (AcceptorTurn env)
  with acceptor_turn_ok [OF assms, of env] show ?thesis by (auto simp: step_def)
next
  case (WorkerTurn i wo)
  with worker_turn_frame [of i wo s] assms show ?thesis by (auto simp: step_def pool_ok_def)
qed

lemma run_ok:
  "pool_ok s \<Longrightarrow> \<exists>s'. run evs s = Some s' \<and> pool_ok s'
          \<and> num_workers s' = num_workers s \<and> workers s' = workers s"
proof (induction evs arbitrary: s)
  case Nil
  then show ?case by simp
next
  case (Cons e evs)
  from step_ok [OF Cons.prems, of e] obtain s1 where
    s1: "step e s = Some s1" "pool_ok s1" "num_workers s1 = num_workers s" "workers s1 = workers s"
    by blast
  from Cons.IH [OF s1(2)] s1 show ?case by auto
qed

lemma init_num_workers_range: "1 \<le> init_num_workers n \<and> init_num_workers n \<le> MAX_WORKERS"
  by (simp add: init_num_workers_def MAX_WORKERS_def)

lemma startup_ok: "pool_ok (startup nprocs sfd epfds)"
  using init_num_workers_range [of nprocs] by (simp add: pool_ok_def startup_def)

lemma step_cursor_writer:
  assumes "step e s = Some s'" and "current_worker s' \<noteq> current_worker s"
  shows "\<exists>env. e = AcceptorTurn env"
proof (cases e)
  case (Signal n)
  with assms show ?thesis by (auto simp: step_def signal_handler_frame)
next
  case (AcceptorTurn env)
  then show ?thesis by simp
next
  case (WorkerTurn i wo)
  with assms worker_turn_frame [of i wo s] show ?thesis by (auto simp: step_def)
qed

lemma acceptor_turn_accepted:
  assumes "pool_ok s" and "accepting s" and "running s" and "accept_outcome env = Inr d"
  shows "\<exists>s'. acceptor_turn env s = Some s' \<and> accepting s'
          \<and> current_worker s' =
               (if registration_succeeds env
                then (current_worker s + 1) mod num_workers s else current_worker s)"
proof -
  from assms have b: "0 \<le> current_worker s" "current_worker s < num_workers s"
    "num_workers s \<le> MAX_WORKERS" "int (length (workers s)) = num_workers s"
    by (simp_all add: pool_ok_def)
  from acceptor_iteration_accepted [OF b assms(4), of "server_fd s"]
  show ?thesis using assms(2,3) by (auto simp: acceptor_turn_def)
qed

lemma example_startup:
  "startup 4 3 example_epfds =
     \<lparr>running = True, server_fd = 3, listening = True, num_workers = 4,
      workers = [\<lparr>epoll_fd = 4, worker_id = 0\<rparr>, \<lparr>epoll_fd = 5, worker_id = 1\<rparr>,
                 \<lparr>epoll_fd = 6, worker_id = 2\<rparr>, \<lparr>epoll_fd = 7, worker_id = 3\<rparr>],
      current_worker = 0, accepting = True, returned = {}, trace = []\<rparr>"
  by (simp add: startup_def init_num_workers_def MAX_WORKERS_def example_epfds_def upt_rec)

lemma example_failed_turn:
  "acceptor_turn (example_accept (Inl (EOTHER 28))) (startup 4 3 example_epfds) =
     Some ((startup 4 3 example_epfds)
       \<lparr>trace := [SysAccept 3, SysFcntlGetfl 9, SysFcntlSetfl 9 2050,
                  SysEpollCtlAdd 4 9 {EPOLLIN, EPOLLET} False, Perror ''epoll_ctl'',
                  SysClose 9]\<rparr>)"
  by (simp add: example_startup acceptor_turn_def acceptor_iteration_def
        make_socket_non_blocking_def example_accept_def O_NONBLOCK_def)

lemma step_running:
  assumes "pool_ok s"
  shows "\<exists>s'. step e s = Some s' \<and> pool_ok s'
           \<and> running s' = (running s \<and> (\<forall>n. e \<noteq> Signal n))"
proof (cases e)
  case (Signal n)
  with assms show ?thesis by (simp add: step_def signal_handler_def pool_ok_def)
next
  case (AcceptorTurn env)
  with acceptor_turn_ok [OF assms, of env] show ?thesis by (auto simp: step_def)
next
  case (WorkerTurn i wo)
  with worker_turn_frame [of i wo s] assms show ?thesis by (auto simp: step_def pool_ok_def)
qed

lemma run_running:
  "pool_ok s \<Longrightarrow>
     \<exists>r. run evs s = Some r \<and> running r = (running s \<and> (\<forall>n. Signal n \<notin> set evs))"
proof (induction evs arbitrary: s)
  case Nil
  then show ?case by simp
next
  case (Cons e evs)
  from step_running [OF Cons.prems, of e] obtain s1 where
    s1: "step e s = Some s1" "pool_ok s1" "running s1 = (running s \<and> (\<forall>n. e \<noteq> Signal n))"
    by blast
  from Cons.IH [OF s1(2)] s1 show ?case by auto
qed

section \<open>Round robin: helper lemmas\<close>

lemma turns_block:
  assumes "0 < N" and "0 \<le> w" and "w < N"
  shows "turns N c w (nat N) = 1"
proof -
  have "{i. i < length [0..<nat N] \<and> (c + int ([0..<nat N] ! i)) mod N = w} =
        {nat ((w - c) mod N)}" (is "?A = ?B")
  proof (intro set_eqI iffI)
    fix k assume "k \<in> ?A"
    hence k: "k < nat N" "(c + int k) mod N = w" by auto
    have "int k = int k mod N" using k(1) by simp
    also have "\<dots> = ((c + int k) - c) mod N" by simp
    also have "\<dots> = ((c + int k) mod N - c) mod N" by (simp only: mod_diff_left_eq)
    also have "\<dots> = (w - c) mod N" by (simp only: k(2))
    finally show "k \<in> ?B" by simp
  next
    fix k assume "k \<in> ?B"
    hence k: "k = nat ((w - c) mod N)" by simp
    have r: "0 \<le> (w - c) mod N" "(w - c) mod N < N" using assms(1) by simp_all
    hence ik: "int k = (w - c) mod N" and lt: "k < nat N" using k by auto
    have "(c + int k) mod N = (c + (w - c) mod N) mod N" by (simp only: ik)
    also have "\<dots> = (c + (w - c)) mod N" by (simp only: mod_add_right_eq)
    also have "\<dots> = w" using assms by simp
    finally show "k \<in> ?A" using lt by simp
  qed
  thus ?thesis by (simp add: turns_def length_filter_conv_card)
qed

lemma turns_shift:
  assumes "0 < N" and "0 \<le> w" and "w < N"
  shows "turns N c w (nat N + m) = 1 + turns N c w m"
proof -
  have s1: "[0..<nat N + m] = [0..<nat N] @ [nat N..<nat N + m]"
    by (rule upt_add_eq_append) simp
  have "map (\<lambda>k. k + nat N) [0..<m] = [nat N..<m + nat N]" by (rule map_add_upt)
  hence s2: "[nat N..<nat N + m] = map (\<lambda>k. k + nat N) [0..<m]"
    by (simp only: add.commute [of m])
  have p: "(c + int (k + nat N)) mod N = (c + int k) mod N" for k
  proof -
    have "c + int (k + nat N) = c + int k + N" using assms(1) by simp
    thus ?thesis by (simp only: mod_add_self2)
  qed
  have "filter (\<lambda>k. (c + int k) mod N = w) (map (\<lambda>k. k + nat N) [0..<m]) =
          map (\<lambda>k. k + nat N) (filter (\<lambda>k. (c + int k) mod N = w) [0..<m])"
    by (simp only: filter_map o_def p)
  hence "length (filter (\<lambda>k. (c + int k) mod N = w) [nat N..<nat N + m]) = turns N c w m"
    by (simp only: s2 turns_def length_map)
  hence "turns N c w (nat N + m) = turns N c w (nat N) + turns N c w m"
    by (simp only: turns_def s1 filter_append length_append)
  thus ?thesis by (simp add: turns_block [OF assms])
qed

lemma turns_mono: "m \<le> n \<Longrightarrow> turns N c w m \<le> turns N c w n"
proof -
  assume "m \<le> n"
  then obtain d where d: "n = m + d" by (auto simp: le_iff_add)
  have "[0..<m + d] = [0..<m] @ [m..<m + d]" by (rule upt_add_eq_append) simp
  thus ?thesis by (simp add: turns_def d)
qed

lemma turns_blocks:
  assumes "0 < N" and "0 \<le> w" and "w < N"
  shows "turns N c w (q * nat N + r) = q + turns N c w r"
proof (induction q)
  case 0
  show ?case by simp
next
  case (Suc q)
  have "turns N c w (Suc q * nat N + r) = turns N c w (nat N + (q * nat N + r))"
    by (simp add: add.assoc)
  also have "\<dots> = 1 + turns N c w (q * nat N + r)" by (rule turns_shift [OF assms])
  finally show ?case using Suc by simp
qed

lemma turns_fair:
  assumes "0 < N" and "0 \<le> w" and "w < N"
  shows "turns N c w M = M div nat N \<or> turns N c w M = (M + nat N - 1) div nat N"
proof -
  define n where "n = nat N"
  have n: "0 < n" using assms(1) by (simp add: n_def)
  define q r where "q = M div n" and "r = M mod n"
  have M: "M = q * n + r" and r: "r < n" using n by (simp_all add: q_def r_def)
  have t: "turns N c w M = q + turns N c w r"
    unfolding M n_def by (rule turns_blocks [OF assms])
  have "turns N c w r \<le> turns N c w n" using r by (intro turns_mono) simp
  hence le: "turns N c w r \<le> 1" using turns_block [OF assms, of c] by (simp add: n_def)
  show ?thesis
  proof (cases "turns N c w r = 0")
    case True
    with t show ?thesis by (simp add: q_def n_def)
  next
    case False
    with le have one: "turns N c w r = 1" by simp
    have r0: "r \<noteq> 0"
    proof
      assume "r = 0"
      with one show False by (simp add: turns_def)
    qed
    hence "M + n - 1 = (r - 1) + (q + 1) * n" by (simp add: M)
    moreover have "(r - 1) div n = 0" using r by simp
    ultimately have "(M + n - 1) div n = q + 1" using n by (simp only: div_mult_self1)
    with t one show ?thesis by (simp add: n_def)
  qed
qed

lemma rotation_Suc:
  assumes "0 \<le> c" and "c < N"
  shows "map (\<lambda>k. (c + int k) mod N) [0..<Suc n] =
           c # map (\<lambda>k. ((c + 1) mod N + int k) mod N) [0..<n]"
proof -
  have "[0..<Suc n] = 0 # map Suc [0..<n]" by (simp only: map_Suc_upt upt_conv_Cons zero_less_Suc)
  moreover have "(c + int (Suc k)) mod N = ((c + 1) mod N + int k) mod N" for k
  proof -
    have "((c + 1) mod N + int k) mod N = (c + 1 + int k) mod N" by (simp only: mod_add_left_eq)
    moreover have "c + int (Suc k) = c + 1 + int k" by simp
    ultimately show ?thesis by (simp only:)
  qed
  ultimately show ?thesis using assms by (simp add: o_def)
qed

lemma run_adds:
  "pool_ok s \<Longrightarrow>
     \<exists>s' new. run evs s = Some s' \<and> trace s' = trace s @ new
       \<and> map fst (adds new) =
           map (\<lambda>k. epoll_fd (workers s ! nat ((current_worker s + int k) mod num_workers s)))
             [0..<length (adds new)]"
proof (induction evs arbitrary: s)
  case Nil
  then show ?case by (simp add: adds_def)
next
  case (Cons e evs)
  from Cons.prems have b: "0 \<le> current_worker s" "current_worker s < num_workers s"
    by (simp_all add: pool_ok_def)
  let ?ep = "\<lambda>c. epoll_fd (workers s ! nat c)"
  from step_ok [OF Cons.prems, of e] obtain s1 n1 where
    s1: "step e s = Some s1" "pool_ok s1" "num_workers s1 = num_workers s"
        "workers s1 = workers s" "trace s1 = trace s @ n1"
    and c: "adds n1 = [] \<and> current_worker s1 = current_worker s
             \<or> (\<exists>d. adds n1 = [(?ep (current_worker s), d)])
                \<and> current_worker s1 = (current_worker s + 1) mod num_workers s"
    by blast
  from Cons.IH [OF s1(2)] obtain s' n2 where
    n: "run evs s1 = Some s'" "trace s' = trace s1 @ n2"
       "map fst (adds n2) =
          map (\<lambda>k. epoll_fd (workers s1 ! nat ((current_worker s1 + int k) mod num_workers s1)))
            [0..<length (adds n2)]"
    by blast
  have r: "run (e # evs) s = Some s'" "trace s' = trace s @ (n1 @ n2)"
    using s1(1,5) n(1,2) by simp_all
  from c show ?case
  proof
    assume a: "adds n1 = [] \<and> current_worker s1 = current_worker s"
    hence "map fst (adds (n1 @ n2)) =
             map (\<lambda>k. ?ep ((current_worker s + int k) mod num_workers s))
               [0..<length (adds (n1 @ n2))]"
      using n(3) s1(3,4) by (simp add: adds_append)
    with r show ?thesis by blast
  next
    assume a: "(\<exists>d. adds n1 = [(?ep (current_worker s), d)])
                \<and> current_worker s1 = (current_worker s + 1) mod num_workers s"
    then obtain d where d: "adds n1 = [(?ep (current_worker s), d)]" by blast
    have "map (\<lambda>k. (current_worker s + int k) mod num_workers s) [0..<Suc (length (adds n2))] =
            current_worker s #
            map (\<lambda>k. ((current_worker s + 1) mod num_workers s + int k) mod num_workers s)
              [0..<length (adds n2)]"
      by (rule rotation_Suc [OF b])
    hence "map ?ep (map (\<lambda>k. (current_worker s + int k) mod num_workers s)
                      [0..<Suc (length (adds n2))]) =
            ?ep (current_worker s) #
            map ?ep (map (\<lambda>k. ((current_worker s + 1) mod num_workers s + int k)
                                 mod num_workers s) [0..<length (adds n2)])"
      by (simp only: list.map)
    hence "map fst (adds (n1 @ n2)) =
             map (\<lambda>k. ?ep ((current_worker s + int k) mod num_workers s))
               [0..<length (adds (n1 @ n2))]"
      using n(3) s1(3,4) a d by (simp add: adds_append o_def)
    with r show ?thesis by blast
  qed
qed

text \<open>With different descriptors for the workers, counting registrations is counting turns.\<close>

lemma registered_on_turns:
  assumes "distinct (map epoll_fd ws)" and "int (length ws) = N" and "w < length ws"
      and "map fst regs = map (\<lambda>k. epoll_fd (ws ! nat ((c + int k) mod N))) [0..<length regs]"
  shows "length (filter (\<lambda>r. fst r = epoll_fd (ws ! w)) regs) = turns N c (int w) (length regs)"
proof -
  have pos: "0 < N" using assms(2,3) by auto
  have eq: "(epoll_fd (ws ! nat ((c + int k) mod N)) = epoll_fd (ws ! w)) =
            ((c + int k) mod N = int w)" for k
  proof -
    have r: "0 \<le> (c + int k) mod N" "(c + int k) mod N < N" using pos by simp_all
    hence i: "nat ((c + int k) mod N) < length (map epoll_fd ws)" using assms(2) by auto
    have j: "w < length (map epoll_fd ws)" using assms(3) by simp
    have "(map epoll_fd ws ! nat ((c + int k) mod N) = map epoll_fd ws ! w) =
          (nat ((c + int k) mod N) = w)"
      by (rule nth_eq_iff_index_eq [OF assms(1) i j])
    moreover have "(nat ((c + int k) mod N) = w) = ((c + int k) mod N = int w)"
      using r by auto
    ultimately show ?thesis using i j by simp
  qed
  have "length (filter (\<lambda>r. fst r = epoll_fd (ws ! w)) regs) =
        length (filter (\<lambda>x. x = epoll_fd (ws ! w)) (map fst regs))"
    by (simp add: filter_map o_def)
  also have "\<dots> = length (filter (\<lambda>k. epoll_fd (ws ! nat ((c + int k) mod N)) = epoll_fd (ws ! w))
                        [0..<length regs])"
    by (simp only: assms(4) filter_map o_def length_map)
  also have "\<dots> = turns N c (int w) (length regs)"
    by (simp only: eq turns_def)
  finally show ?thesis .
qed

lemma example_run_adds:
  "map_option (\<lambda>s. adds (trace s)) (run example_events (startup 4 3 example_epfds)) =
     Some [(4, 9), (5, 9), (6, 9), (7, 9), (4, 9), (5, 9)]"
  by (simp add: example_events_def example_startup step_def acceptor_turn_def
        acceptor_iteration_def make_socket_non_blocking_def example_accept_def
        c_add_def c_rem_def is_c_int_def INT_MIN_def INT_MAX_def
        worker_turn_def worker_iteration_def adds_def
        del: c_format.simps)

lemma example_dropped_adds:
  "map_option (\<lambda>s. adds (trace s)) (run example_dropped (startup 4 3 example_epfds)) =
     Some [(4, 9), (5, 9), (6, 9)]"
  by (simp add: example_dropped_def example_startup step_def acceptor_turn_def
        acceptor_iteration_def make_socket_non_blocking_def example_accept_def
        c_add_def c_rem_def is_c_int_def INT_MIN_def INT_MAX_def adds_def
        del: c_format.simps)


section \<open>Claims about the connection handler\<close>




text \<open>
  C7.  When the handler's read returns exactly zero bytes, the handler only logs that
  the client closed the connection: it issues no \<^verbatim>\<open>write\<close> and no \<^verbatim>\<open>close\<close>.
  The socket is closed by the event loop, in the same dispatch, exactly when the event
  carries the error or hangup flag.
\<close>

theorem empty_read_leaves_socket_open:
  assumes "read_outcome env = Inr []"
  shows "handle_connection env client_fd wid =
           Some [SysRead client_fd (BUFFER_SIZE - 1),
                 Stdout (''Worker '' @ show_int wid @ '': Client closed connection'' @ [LF])]
       \<and> map_option written (handle_connection env client_fd wid) = Some []
       \<and> map_option closed (handle_connection env client_fd wid) = Some []
       \<and> (EPOLLIN \<in> events ev \<longrightarrow>
            map_option closed (handle_event worker (ev, env)) =
              Some (if events ev \<inter> {EPOLLERR, EPOLLHUP} \<noteq> {} then [data_fd ev] else []))"
proof -
  have h: "handle_connection env d w =
           Some [SysRead d (BUFFER_SIZE - 1),
                 Stdout (''Worker '' @ show_int w @ '': Client closed connection'' @ [LF])]"
    for d w using assms by (rule handle_connection_eof)
  show ?thesis
    by (simp add: h handle_event_def written_def closed_def)
qed

theorem empty_read_leaves_socket_open_witness:
  "handle_connection \<lparr>read_outcome = Inr [], stack_bytes = (\<lambda>i. CHR ''x''), write_outcome = Written 86\<rparr> 7 3 =
           Some [SysRead 7 4095, Stdout (''Worker 3: Client closed connection'' @ [LF])]
   \<and> map_option written
         (handle_connection \<lparr>read_outcome = Inr [], stack_bytes = (\<lambda>i. CHR ''x''), write_outcome = Written 86\<rparr> 7 3) = Some []
   \<and> map_option closed
         (handle_connection \<lparr>read_outcome = Inr [], stack_bytes = (\<lambda>i. CHR ''x''), write_outcome = Written 86\<rparr> 7 3) = Some []
   \<and> map_option closed
         (handle_event \<lparr>epoll_fd = 4, worker_id = 3\<rparr>
            (\<lparr>events = {EPOLLIN, EPOLLHUP}, data_fd = 7\<rparr>,
             \<lparr>read_outcome = Inr [], stack_bytes = (\<lambda>i. CHR ''x''), write_outcome = Written 86\<rparr>)) = Some [7]
   \<and> map_option closed
         (handle_event \<lparr>epoll_fd = 4, worker_id = 3\<rparr>
            (\<lparr>events = {EPOLLIN}, data_fd = 7\<rparr>,
             \<lparr>read_outcome = Inr [], stack_bytes = (\<lambda>i. CHR ''x''), write_outcome = Written 86\<rparr>)) = Some []"
  using empty_read_leaves_socket_open
          [of "\<lparr>read_outcome = Inr [], stack_bytes = (\<lambda>i. CHR ''x''), write_outcome = Written 86\<rparr>" 7 3
              "\<lparr>events = {EPOLLIN, EPOLLHUP}, data_fd = 7\<rparr>" "\<lparr>epoll_fd = 4, worker_id = 3\<rparr>"]
        empty_read_leaves_socket_open
          [of "\<lparr>read_outcome = Inr [], stack_bytes = (\<lambda>i. CHR ''x''), write_outcome = Written 86\<rparr>" 7 3
              "\<lparr>events = {EPOLLIN}, data_fd = 7\<rparr>" "\<lparr>epoll_fd = 4, worker_id = 3\<rparr>"]
  by (simp add: BUFFER_SIZE_def show_int_3)

text \<open>
  C8.  Two connections served by the same worker whose reads both return a non-empty
  byte sequence get the same response bytes, whatever the two requests hold: each
  handler run issues exactly one \<^verbatim>\<open>write\<close>, on its own connection, and the bytes of
  the two writes are equal.
\<close>

theorem response_independent_of_request:
  assumes "read_outcome env1 = Inr req1" and "req1 \<noteq> []"
      and "read_outcome env2 = Inr req2" and "req2 \<noteq> []"
  shows "\<exists>bs. map_option written (handle_connection env1 fd1 wid) = Some [(fd1, bs)]
            \<and> map_option written (handle_connection env2 fd2 wid) = Some [(fd2, bs)]"
  by (simp add: handle_connection_data [OF assms(1,2)] handle_connection_data [OF assms(3,4)]
        written_def)

theorem response_independent_of_request_witness:
  "\<exists>bs. map_option written
          (handle_connection
             \<lparr>read_outcome = Inr ''GET / HTTP/1.1'', stack_bytes = (\<lambda>i. CHR ''x''), write_outcome = Written 86\<rparr> 7 3)
            = Some [(7, bs)]
      \<and> map_option written
          (handle_connection
             \<lparr>read_outcome = Inr ''INVALID REQUEST'', stack_bytes = (\<lambda>i. CHR ''y''), write_outcome = Written 10\<rparr> 9 3)
            = Some [(9, bs)]"
  using response_independent_of_request
          [of "\<lparr>read_outcome = Inr ''GET / HTTP/1.1'', stack_bytes = (\<lambda>i. CHR ''x''), write_outcome = Written 86\<rparr>"
              "''GET / HTTP/1.1''"
              "\<lparr>read_outcome = Inr ''INVALID REQUEST'', stack_bytes = (\<lambda>i. CHR ''y''), write_outcome = Written 10\<rparr>"
              "''INVALID REQUEST''" 7 3 9]
  by simp

text \<open>
  C10.  The handler stays inside its two buffers whatever the read returns and whatever
  the stack held: it never reaches an out-of-bounds store (the result is never \<open>None\<close>).
  It asks \<^verbatim>\<open>read\<close> for \<open>BUFFER_SIZE - 1\<close> bytes, one less than the buffer holds, which
  leaves room for the terminator at index \<open>bytes_read\<close>; \<^verbatim>\<open>snprintf\<close>, bounded by
  the size of the 512-byte buffer, stores at most 512 bytes there, and the
  \<^verbatim>\<open>write\<close>, when there is one, sends exactly the \<^verbatim>\<open>strlen\<close> bytes before the
  terminator, fewer than 512.
\<close>

theorem handler_buffers_in_bounds:
  "\<exists>acts out.
      handle_connection env client_fd wid = Some acts
    \<and> hd acts = SysRead client_fd (BUFFER_SIZE - 1)
    \<and> BUFFER_SIZE - 1 < BUFFER_SIZE
    \<and> snprintf 512 512 response [ArgInt wid] = Some out
    \<and> length out \<le> 512
    \<and> strlen out < 512
    \<and> (written acts = [] \<or> written acts = [(client_fd, take (strlen out) out)])"
proof -
  let ?out = "take 511 (c_format response [ArgInt wid]) @ [NUL]"
  have o: "snprintf 512 512 response [ArgInt wid] = Some ?out" by (rule snprintf_fits)
  have l: "length ?out \<le> 512" by simp
  have "strlen ?out \<le> length (take 511 (c_format response [ArgInt wid]))" by (rule strlen_le)
  hence sl: "strlen ?out < 512" by simp
  have b: "BUFFER_SIZE - 1 < BUFFER_SIZE" by (simp add: BUFFER_SIZE_def)
  show ?thesis
  proof (cases "read_outcome env")
    case (Inl e)
    with o l sl b show ?thesis by (simp add: handle_connection_error written_def)
  next
    case (Inr req)
    show ?thesis
    proof (cases "req = []")
      case True
      with Inr o l sl b show ?thesis by (simp add: handle_connection_eof written_def)
    next
      case False
      with Inr o l sl b show ?thesis by (simp add: handle_connection_data written_def)
    qed
  qed
qed

section \<open>Claims about the pool, the acceptor and the cursor\<close>

text \<open>
  C4 (as stated, refuted).  On a host that reports 64 processors the pool has 4
  workers: neither the processor count nor the count capped at \<^verbatim>\<open>MAX_WORKERS\<close>.
\<close>

theorem pool_size_not_processor_count:
  "init_num_workers 64 = 4 \<and> init_num_workers 64 \<noteq> 64 \<and> init_num_workers 64 \<noteq> min 64 MAX_WORKERS"
  by (simp add: init_num_workers_def MAX_WORKERS_def)

text \<open>
  C4 (amended).  The pool size is the detected processor count when that lies between
  1 and \<^verbatim>\<open>MAX_WORKERS\<close> (32); otherwise, when detection fails or reports no
  processor and also when the count exceeds \<^verbatim>\<open>MAX_WORKERS\<close>, it is the default 4.
  In every case the size is between 1 and \<^verbatim>\<open>MAX_WORKERS\<close>, and the pool built at
  startup has that many workers.
\<close>

theorem pool_size:
  "(1 \<le> nprocs \<and> nprocs \<le> MAX_WORKERS \<longrightarrow> init_num_workers nprocs = nprocs)
 \<and> (nprocs \<le> 0 \<or> MAX_WORKERS < nprocs \<longrightarrow> init_num_workers nprocs = 4)
 \<and> 1 \<le> init_num_workers nprocs \<and> init_num_workers nprocs \<le> MAX_WORKERS
 \<and> num_workers (startup nprocs sfd epfds) = init_num_workers nprocs
 \<and> int (length (workers (startup nprocs sfd epfds))) = init_num_workers nprocs"
  by (auto simp: init_num_workers_def MAX_WORKERS_def startup_def)

theorem pool_size_witness:
  "init_num_workers 8 = 8 \<and> init_num_workers (- 1) = 4 \<and> init_num_workers 0 = 4
 \<and> init_num_workers 33 = 4 \<and> init_num_workers 32 = 32
 \<and> num_workers (startup 8 3 (\<lambda>i. 4 + int i)) = 8
 \<and> length (workers (startup 8 3 (\<lambda>i. 4 + int i))) = 8"
  using pool_size [of 8 3 "\<lambda>i. 4 + int i"] pool_size [of "- 1"] pool_size [of 0] pool_size [of 33] pool_size [of 32]
  by (simp add: MAX_WORKERS_def)

text \<open>
  C6.  When an accepted connection has been made non-blocking and its registration
  with the current worker's multiplexer fails, the acceptor's turn reports the error
  and closes the connection's socket.  Nothing else changes: the acceptor is still in
  its loop, the cursor and the list of assigned connections are the same, and the one
  \<^verbatim>\<open>epoll_ctl\<close> call, on the current worker, is the only registration attempted, so the
  connection is neither retried nor passed to another worker.
\<close>

theorem failed_registration_drops_connection:
  assumes "accepting s" and "running s"
      and "0 \<le> current_worker s" and "nat (current_worker s) < length (workers s)"
      and "accept_outcome env = Inr client_fd"
      and "getfl_outcome env = Inr flags" and "setfl_outcome env = Inr ()"
      and "epoll_add_outcome env = Inl e"
  shows "acceptor_turn env s =
           Some (s\<lparr>trace := trace s @
                    [SysAccept (server_fd s),
                     SysFcntlGetfl client_fd,
                     SysFcntlSetfl client_fd (flags OR O_NONBLOCK),
                     SysEpollCtlAdd (epoll_fd (workers s ! nat (current_worker s))) client_fd
                       {EPOLLIN, EPOLLET} False,
                     Perror ''epoll_ctl'',
                     SysClose client_fd]\<rparr>)"
  using assms
  by (simp add: acceptor_turn_def acceptor_iteration_def make_socket_non_blocking_def Let_def)

theorem failed_registration_drops_connection_witness:
  "acceptor_turn (example_accept (Inl (EOTHER 28))) (startup 4 3 example_epfds) =
     Some ((startup 4 3 example_epfds)
       \<lparr>trace := [SysAccept 3, SysFcntlGetfl 9, SysFcntlSetfl 9 2050,
                  SysEpollCtlAdd 4 9 {EPOLLIN, EPOLLET} False, Perror ''epoll_ctl'',
                  SysClose 9]\<rparr>)"
  using failed_registration_drops_connection
          [where s = "startup 4 3 example_epfds" and env = "example_accept (Inl (EOTHER 28))"
             and client_fd = 9 and flags = 2 and e = "EOTHER 28"]
  by (simp add: example_startup example_accept_def O_NONBLOCK_def)

text \<open>
  C2 (as stated, refuted).  A connection is accepted (descriptor 9) while the cursor is
  0 of 4; its registration fails, and after the turn the cursor is still 0, not 1.
\<close>

theorem cursor_stays_on_failed_registration:
  "accept_outcome (example_accept (Inl (EOTHER 28))) = Inr 9
 \<and> map_option current_worker
      (step (AcceptorTurn (example_accept (Inl (EOTHER 28)))) (startup 4 3 example_epfds)) = Some 0
 \<and> map_option current_worker
      (step (AcceptorTurn (example_accept (Inl (EOTHER 28)))) (startup 4 3 example_epfds)) \<noteq>
    Some ((current_worker (startup 4 3 example_epfds) + 1) mod
            num_workers (startup 4 3 example_epfds))"
  by (simp add: step_def example_failed_turn) (simp add: example_startup example_accept_def)

text \<open>
  C2 (amended).  The cursor stays in \<open>[0, N)\<close> in every state the process reaches,
  \<open>N\<close> being the number of workers.  The signal handler and the workers' turns leave
  it as it is; only a turn of the acceptor changes it.  Such a turn advances it by
  exactly one modulo \<open>N\<close> when it accepts a connection and registers it with the
  current worker, and leaves it unchanged otherwise, in particular for an accepted
  connection that is dropped because it cannot be made non-blocking or registered.
\<close>

theorem cursor_round_robin:
  assumes "pool_ok s"
  shows "(\<exists>r. run evs (startup nprocs sfd epfds) = Some r \<and> pool_ok r
              \<and> 0 \<le> current_worker r \<and> current_worker r < num_workers r)
       \<and> map_option current_worker (step (Signal n) s) = Some (current_worker s)
       \<and> map_option current_worker (step (WorkerTurn i wo) s) = Some (current_worker s)
       \<and> (\<exists>s'. step (AcceptorTurn env) s = Some s'
              \<and> 0 \<le> current_worker s' \<and> current_worker s' < num_workers s
              \<and> current_worker s' =
                  (if accepting s \<and> running s \<and> \<not> isl (accept_outcome env)
                      \<and> registration_succeeds env
                   then (current_worker s + 1) mod num_workers s
                   else current_worker s))"
proof -
  obtain r where r: "run evs (startup nprocs sfd epfds) = Some r" "pool_ok r"
    using run_ok [OF startup_ok] by blast
  hence c1: "\<exists>r. run evs (startup nprocs sfd epfds) = Some r \<and> pool_ok r
              \<and> 0 \<le> current_worker r \<and> current_worker r < num_workers r"
    by (auto simp: pool_ok_def)
  have c2: "map_option current_worker (step (Signal n) s) = Some (current_worker s)"
    by (simp add: step_def signal_handler_frame)
  have c3: "map_option current_worker (step (WorkerTurn i wo) s) = Some (current_worker s)"
    using worker_turn_frame [of i wo s] by (auto simp: step_def)
  obtain s' where s': "acceptor_turn env s = Some s'" "pool_ok s'" "num_workers s' = num_workers s"
    using acceptor_turn_ok [OF assms] by blast
  have "current_worker s' =
          (if accepting s \<and> running s \<and> \<not> isl (accept_outcome env) \<and> registration_succeeds env
           then (current_worker s + 1) mod num_workers s else current_worker s)"
  proof (cases "accepting s \<and> running s")
    case False
    with s'(1) show ?thesis by (auto simp: acceptor_turn_def split: if_splits)
  next
    case True
    show ?thesis
    proof (cases "accept_outcome env")
      case (Inl e)
      obtain it where "acceptor_iteration (workers s) (num_workers s) (server_fd s)
                         (current_worker s) env = Some it" "cursor it = current_worker s"
        using acceptor_iteration_not_accepted [OF Inl] by blast
      with True s'(1) Inl show ?thesis by (auto simp: acceptor_turn_def)
    next
      case (Inr d)
      with True s'(1) acceptor_turn_accepted [OF assms _ _ Inr] show ?thesis by auto
    qed
  qed
  with s' have c4: "\<exists>s'. step (AcceptorTurn env) s = Some s'
              \<and> 0 \<le> current_worker s' \<and> current_worker s' < num_workers s
              \<and> current_worker s' =
                  (if accepting s \<and> running s \<and> \<not> isl (accept_outcome env)
                      \<and> registration_succeeds env
                   then (current_worker s + 1) mod num_workers s
                   else current_worker s)"
    by (auto simp: step_def pool_ok_def)
  from c1 c2 c3 c4 show ?thesis by blast
qed

theorem cursor_round_robin_witness:
  "pool_ok (startup 4 3 example_epfds)
 \<and> (\<exists>r. run [AcceptorTurn (example_accept (Inr ())), WorkerTurn 0 (WaitReady []), Signal 15]
            (startup 4 3 example_epfds) = Some r
        \<and> 0 \<le> current_worker r \<and> current_worker r < num_workers r)
 \<and> map_option current_worker (step (Signal 15) (startup 4 3 example_epfds)) = Some 0
 \<and> map_option current_worker (step (WorkerTurn 0 (WaitReady [])) (startup 4 3 example_epfds)) = Some 0
 \<and> (\<exists>s'. step (AcceptorTurn (example_accept (Inr ()))) (startup 4 3 example_epfds) = Some s'
        \<and> current_worker s' = 1)"
  using cursor_round_robin
          [where s = "startup 4 3 example_epfds"
             and evs = "[AcceptorTurn (example_accept (Inr ())), WorkerTurn 0 (WaitReady []), Signal 15]"
             and nprocs = 4 and sfd = 3 and epfds = example_epfds and n = 15 and i = 0
             and wo = "WaitReady []" and env = "example_accept (Inr ())"]
        startup_ok [of 4 3 example_epfds]
  by (auto simp: example_startup registration_succeeds_def example_accept_def)

text \<open>
  C3 (as stated, refuted).  Four connections are accepted in a row by a pool of four
  workers, none of which fails; the third connection cannot be made non-blocking and
  is dropped.  Workers 0, 1 and 2 get one connection each and worker 3 gets none,
  while \<open>\<lfloor>4 / 4\<rfloor> = \<lceil>4 / 4\<rceil> = 1\<close>.
\<close>

theorem dropped_connection_unbalances:
  "accepts example_dropped = 4
 \<and> map_option returned (run example_dropped (startup 4 3 example_epfds)) = Some {}
 \<and> map_option (\<lambda>s. map (\<lambda>w. registered_on (epoll_fd w) (trace s)) (workers s))
       (run example_dropped (startup 4 3 example_epfds)) = Some [1, 1, 1, 0]
 \<and> (0::nat) \<noteq> 4 div 4 \<and> (0::nat) \<noteq> (4 + 4 - 1) div 4"
  by (simp add: example_dropped_def example_startup step_def acceptor_turn_def
        acceptor_iteration_def make_socket_non_blocking_def example_accept_def
        c_add_def c_rem_def is_c_int_def INT_MIN_def INT_MAX_def adds_def
        registered_on_def accepts_def
        del: c_format.simps)

text \<open>
  C3 (amended).  Take any state the process reaches and any run from it, and let \<open>M\<close>
  be the number of connections registered during that run, as the successful
  \<^verbatim>\<open>epoll_ctl\<close> calls of the run show, and \<open>N\<close> the number of workers, each with a
  multiplexer of its own.  Then the number of connections registered on each worker's
  multiplexer is \<open>\<lfloor>M / N\<rfloor>\<close> or \<open>\<lceil>M / N\<rceil>\<close>.  Accepted connections that are dropped
  before they are registered do not count.  This holds for every \<open>M\<close>, so also for
  \<open>M\<close> at most a few multiples of \<open>N\<close>, and whatever happens to the workers
  meanwhile.
\<close>

theorem round_robin_fair:
  assumes "run pre (startup nprocs sfd epfds) = Some s"
      and "run evs s = Some s'"
      and "distinct (map epoll_fd (workers s))"
      and "w < length (workers s)"
  shows "\<exists>new. trace s' = trace s @ new
           \<and> (registered_on (epoll_fd (workers s ! w)) new =
                 length (adds new) div nat (num_workers s)
              \<or> registered_on (epoll_fd (workers s ! w)) new =
                 (length (adds new) + nat (num_workers s) - 1) div nat (num_workers s))"
proof -
  from run_ok [OF startup_ok, of pre nprocs sfd epfds] assms(1) have ok: "pool_ok s" by simp
  from run_adds [OF ok, of evs] assms(2) obtain new where
    n: "trace s' = trace s @ new"
       "map fst (adds new) =
          map (\<lambda>k. epoll_fd (workers s ! nat ((current_worker s + int k) mod num_workers s)))
            [0..<length (adds new)]"
    by auto
  have len: "int (length (workers s)) = num_workers s" and pos: "0 < num_workers s"
    using ok by (simp_all add: pool_ok_def)
  have w: "0 \<le> int w" "int w < num_workers s" using assms(4) len by simp_all
  have "registered_on (epoll_fd (workers s ! w)) new =
          turns (num_workers s) (current_worker s) (int w) (length (adds new))"
    unfolding registered_on_def
    by (rule registered_on_turns [OF assms(3) len assms(4) n(2)])
  with turns_fair [OF pos w, of "current_worker s" "length (adds new)"] n(1)
  show ?thesis by auto
qed

theorem round_robin_fair_witness:
  "\<exists>new. map_option trace (run example_events (startup 4 3 example_epfds)) = Some new
      \<and> adds new = [(4, 9), (5, 9), (6, 9), (7, 9), (4, 9), (5, 9)]
      \<and> registered_on 5 new = 2 \<and> registered_on 7 new = 1
      \<and> (registered_on 5 new = 6 div 4 \<or> registered_on 5 new = (6 + 4 - 1) div 4)"
proof -
  let ?s = "startup 4 3 example_epfds"
  have pre: "run [] ?s = Some ?s" by simp
  obtain s' where s': "run example_events ?s = Some s'"
    "adds (trace s') = [(4, 9), (5, 9), (6, 9), (7, 9), (4, 9), (5, 9)]"
    using example_run_adds by auto
  have d: "distinct (map epoll_fd (workers ?s))" and w: "1 < length (workers ?s)"
    by (simp_all add: example_startup)
  have ep: "epoll_fd (workers ?s ! 1) = 5" and nw: "nat (num_workers ?s) = 4"
    and tr: "trace ?s = []"
    by (simp_all add: example_startup)
  from round_robin_fair [OF pre s'(1) d w] obtain new where
    n: "trace s' = trace ?s @ new"
       "registered_on (epoll_fd (workers ?s ! 1)) new = length (adds new) div nat (num_workers ?s)
        \<or> registered_on (epoll_fd (workers ?s ! 1)) new =
            (length (adds new) + nat (num_workers ?s) - 1) div nat (num_workers ?s)"
    by blast
  from n(1) have new: "new = trace s'" by (simp only: tr append_Nil)
  have a: "adds new = [(4, 9), (5, 9), (6, 9), (7, 9), (4, 9), (5, 9)]"
    using s'(2) by (simp only: new)
  from n(2) have f: "registered_on 5 new = 6 div 4 \<or> registered_on 5 new = (6 + 4 - 1) div 4"
    unfolding ep nw a by simp
  have c: "registered_on 5 new = 2" "registered_on 7 new = 1"
    by (simp_all add: registered_on_def a)
  have "map_option trace (run example_events ?s) = Some new" using s'(1) new by simp
  with a c f show ?thesis by blast
qed

section \<open>Claims about the worker loop and shutdown\<close>

text \<open>
  C5.  A worker in its loop, the flag set, whose wait fails with \<^verbatim>\<open>EINTR\<close> does
  nothing but the wait: it is still in its loop, nothing else of the state changes, and
  its next turn waits again on the same multiplexer.  Any other wait error is
  reported and ends the loop of that worker alone: the running flag, the listening
  socket and the acceptor are as before, the set of workers that have returned grows
  by this worker only, this worker does nothing any more, and every other worker
  still in its loop goes on waiting on its own multiplexer.
\<close>

theorem wait_error_handling:
  assumes "i < length (workers s)" and "i \<notin> returned s" and "running s"
  shows "worker_turn i (WaitError EINTR) s =
           Some (s\<lparr>trace := trace s @ [SysEpollWait (epoll_fd (workers s ! i)) MAX_EVENTS 1000]\<rparr>)
       \<and> (\<exists>s' acts.
            worker_turn i wo
              (s\<lparr>trace := trace s @ [SysEpollWait (epoll_fd (workers s ! i)) MAX_EVENTS 1000]\<rparr>)
              = Some s'
          \<and> trace s' = trace s @ [SysEpollWait (epoll_fd (workers s ! i)) MAX_EVENTS 1000]
                                @ SysEpollWait (epoll_fd (workers s ! i)) MAX_EVENTS 1000 # acts)
       \<and> (e \<noteq> EINTR \<longrightarrow>
            worker_turn i (WaitError e) s =
              Some (s\<lparr>returned := insert i (returned s),
                      trace := trace s @ [SysEpollWait (epoll_fd (workers s ! i)) MAX_EVENTS 1000,
                                          Perror ''epoll_wait'']\<rparr>))
       \<and> (e \<noteq> EINTR \<longrightarrow>
            (\<exists>s'. worker_turn i (WaitError e) s = Some s'
                \<and> running s' \<and> accepting s' = accepting s \<and> listening s' = listening s
                \<and> returned s' = insert i (returned s)
                \<and> worker_turn i wo s' = Some s'
                \<and> (j < length (workers s) \<and> j \<notin> returned s \<and> j \<noteq> i \<longrightarrow>
                     (\<exists>s'' acts. worker_turn j wo s' = Some s''
                        \<and> trace s'' = trace s' @
                             SysEpollWait (epoll_fd (workers s ! j)) MAX_EVENTS 1000 # acts))))"
proof -
  let ?w = "SysEpollWait (epoll_fd (workers s ! i)) MAX_EVENTS 1000"
  have a: "worker_turn i (WaitError EINTR) s = Some (s\<lparr>trace := trace s @ [?w]\<rparr>)"
    using assms by (simp add: worker_turn_def worker_iteration_def)
  have turn: "\<exists>s'' acts. worker_turn k wo t = Some s''
                \<and> trace s'' = trace t @ SysEpollWait (epoll_fd (workers t ! k)) MAX_EVENTS 1000 # acts"
    if "k < length (workers t)" "k \<notin> returned t" "running t" for k t
  proof -
    obtain c acts where "worker_iteration (workers t ! k) wo =
        Some (c, SysEpollWait (epoll_fd (workers t ! k)) MAX_EVENTS 1000 # acts)"
      using worker_iteration_total by blast
    with that show ?thesis by (simp add: worker_turn_def)
  qed
  have b: "\<exists>s' acts. worker_turn i wo (s\<lparr>trace := trace s @ [?w]\<rparr>) = Some s'
             \<and> trace s' = trace s @ [?w] @ ?w # acts"
    using turn [of i "s\<lparr>trace := trace s @ [?w]\<rparr>"] assms by simp
  have c: "worker_turn i (WaitError e) s =
              Some (s\<lparr>returned := insert i (returned s),
                      trace := trace s @ [?w, Perror ''epoll_wait'']\<rparr>)" if "e \<noteq> EINTR"
    using assms that by (simp add: worker_turn_def worker_iteration_def)
  have d: "\<exists>s'. worker_turn i (WaitError e) s = Some s'
                \<and> running s' \<and> accepting s' = accepting s \<and> listening s' = listening s
                \<and> returned s' = insert i (returned s)
                \<and> worker_turn i wo s' = Some s'
                \<and> (j < length (workers s) \<and> j \<notin> returned s \<and> j \<noteq> i \<longrightarrow>
                     (\<exists>s'' acts. worker_turn j wo s' = Some s''
                        \<and> trace s'' = trace s' @
                             SysEpollWait (epoll_fd (workers s ! j)) MAX_EVENTS 1000 # acts))"
    if "e \<noteq> EINTR"
  proof -
    let ?s' = "s\<lparr>returned := insert i (returned s), trace := trace s @ [?w, Perror ''epoll_wait'']\<rparr>"
    have 1: "worker_turn i wo ?s' = Some ?s'" by (simp add: worker_turn_def)
    have 2: "\<exists>s'' acts. worker_turn j wo ?s' = Some s''
                        \<and> trace s'' = trace ?s' @
                             SysEpollWait (epoll_fd (workers s ! j)) MAX_EVENTS 1000 # acts"
      if "j < length (workers s)" "j \<notin> returned s" "j \<noteq> i"
      using turn [of j ?s'] that assms by simp
    show ?thesis using c [OF that] assms 1 2 by simp
  qed
  from a b c d show ?thesis by blast
qed

theorem wait_error_handling_witness:
  "worker_turn 1 (WaitError EINTR) (startup 4 3 example_epfds) =
     Some ((startup 4 3 example_epfds)\<lparr>trace := [SysEpollWait 5 64 1000]\<rparr>)
 \<and> (\<exists>s' acts.
        worker_turn 1 (WaitReady []) ((startup 4 3 example_epfds)\<lparr>trace := [SysEpollWait 5 64 1000]\<rparr>)
          = Some s'
      \<and> trace s' = [SysEpollWait 5 64 1000] @ SysEpollWait 5 64 1000 # acts)
 \<and> worker_turn 1 (WaitError (EOTHER 9)) (startup 4 3 example_epfds) =
     Some ((startup 4 3 example_epfds)
             \<lparr>returned := {1}, trace := [SysEpollWait 5 64 1000, Perror ''epoll_wait'']\<rparr>)
 \<and> (\<exists>s'. worker_turn 1 (WaitError (EOTHER 9)) (startup 4 3 example_epfds) = Some s'
        \<and> running s' \<and> returned s' = {1}
        \<and> worker_turn 1 (WaitReady []) s' = Some s'
        \<and> (\<exists>s'' acts. worker_turn 2 (WaitReady []) s' = Some s''
              \<and> trace s'' = trace s' @ SysEpollWait 6 64 1000 # acts))"
proof -
  let ?s = "startup 4 3 example_epfds"
  have a: "1 < length (workers ?s)" "1 \<notin> returned ?s" "running ?s"
    by (simp_all add: example_startup)
  have w1: "SysEpollWait (epoll_fd (workers ?s ! 1)) MAX_EVENTS 1000 = SysEpollWait 5 64 1000"
    by (simp add: example_startup MAX_EVENTS_def)
  have w2: "SysEpollWait (epoll_fd (workers ?s ! 2)) MAX_EVENTS 1000 = SysEpollWait 6 64 1000"
    by (simp add: example_startup MAX_EVENTS_def)
  have tr: "trace ?s = []" and rt: "insert 1 (returned ?s) = {1}"
    by (simp_all add: example_startup)
  have ne: "EOTHER 9 \<noteq> EINTR" by simp
  have other: "2 < length (workers ?s) \<and> 2 \<notin> returned ?s \<and> (2::nat) \<noteq> 1"
    by (simp add: example_startup)
  note t = wait_error_handling
             [where s = ?s and i = 1 and j = 2 and e = "EOTHER 9" and wo = "WaitReady []",
              OF a, unfolded w1 w2 tr rt append_Nil]
  note t1 = t [THEN conjunct1]
  note t2 = t [THEN conjunct2, THEN conjunct1]
  note t3 = t [THEN conjunct2, THEN conjunct2, THEN conjunct1, THEN mp, OF ne]
  note t4 = t [THEN conjunct2, THEN conjunct2, THEN conjunct2, THEN mp, OF ne]
  from t4 obtain s' where s':
    "worker_turn 1 (WaitError (EOTHER 9)) ?s = Some s'" "running s'" "returned s' = {1}"
    "worker_turn 1 (WaitReady []) s' = Some s'"
    "2 < length (workers ?s) \<and> 2 \<notin> returned ?s \<and> (2::nat) \<noteq> 1 \<longrightarrow>
       (\<exists>s'' acts. worker_turn 2 (WaitReady []) s' = Some s''
              \<and> trace s'' = trace s' @ SysEpollWait 6 64 1000 # acts)"
    by (elim exE conjE)
  from s'(5) other have "\<exists>s'' acts. worker_turn 2 (WaitReady []) s' = Some s''
              \<and> trace s'' = trace s' @ SysEpollWait 6 64 1000 # acts" by (rule mp)
  with s'(1-4) have t4': "\<exists>s'. worker_turn 1 (WaitError (EOTHER 9)) ?s = Some s'
        \<and> running s' \<and> returned s' = {1}
        \<and> worker_turn 1 (WaitReady []) s' = Some s'
        \<and> (\<exists>s'' acts. worker_turn 2 (WaitReady []) s' = Some s''
              \<and> trace s'' = trace s' @ SysEpollWait 6 64 1000 # acts)"
    by blast
  from t1 t2 t3 t4' show ?thesis by (intro conjI)
qed

text \<open>
  C9.  The flag is true at startup.  The signal handler sets it false and closes the
  listening socket.  No turn of a worker or of the acceptor changes the flag.  Hence
  along every run from startup the flag is true exactly as long as no signal has
  arrived: it goes from true to false once, at the first signal, and from a state
  where it is false no run makes it true again.
\<close>

theorem running_flag_one_way:
  "running (startup nprocs sfd epfds)
 \<and> step (Signal n) s = Some (signal_handler n s)
 \<and> \<not> running (signal_handler n s)
 \<and> \<not> listening (signal_handler n s)
 \<and> closed (trace (signal_handler n s)) = closed (trace s) @ [server_fd s]
 \<and> map_option running (step (WorkerTurn i wo) s) = Some (running s)
 \<and> (pool_ok s \<longrightarrow> map_option running (step (AcceptorTurn env) s) = Some (running s))
 \<and> (\<exists>r. run evs (startup nprocs sfd epfds) = Some r
        \<and> running r = (\<forall>k. Signal k \<notin> set evs))
 \<and> (pool_ok s \<and> \<not> running s \<longrightarrow> (\<exists>r. run evs s = Some r \<and> \<not> running r))"
proof -
  have a: "running (startup nprocs sfd epfds)" by (simp add: startup_def)
  have b: "step (Signal n) s = Some (signal_handler n s)" by (simp add: step_def)
  have c: "\<not> running (signal_handler n s)" "\<not> listening (signal_handler n s)"
    by (simp_all add: signal_handler_def)
  have d: "closed (trace (signal_handler n s)) = closed (trace s) @ [server_fd s]"
    by (simp add: signal_handler_def closed_def del: c_format.simps)
  have e: "map_option running (step (WorkerTurn i wo) s) = Some (running s)"
    using worker_turn_frame [of i wo s] by (auto simp: step_def)
  have f: "map_option running (step (AcceptorTurn env) s) = Some (running s)" if "pool_ok s"
    using acceptor_turn_ok [OF that, of env] by (auto simp: step_def)
  have g: "\<exists>r. run evs (startup nprocs sfd epfds) = Some r
        \<and> running r = (\<forall>k. Signal k \<notin> set evs)"
    using run_running [OF startup_ok, of evs nprocs sfd epfds] a by simp
  have h: "\<exists>r. run evs s = Some r \<and> \<not> running r" if "pool_ok s" "\<not> running s"
    using run_running [OF that(1), of evs] that(2) by auto
  from a b c d e f g h show ?thesis by blast
qed

theorem running_flag_one_way_witness:
  "running (startup 4 3 example_epfds)
 \<and> \<not> running (signal_handler 15 (startup 4 3 example_epfds))
 \<and> \<not> listening (signal_handler 15 (startup 4 3 example_epfds))
 \<and> closed (trace (signal_handler 15 (startup 4 3 example_epfds))) = [3]
 \<and> map_option running
      (step (AcceptorTurn (example_accept (Inr ()))) (startup 4 3 example_epfds)) = Some True
 \<and> (\<exists>r. run [AcceptorTurn (example_accept (Inr ())), Signal 15, WorkerTurn 0 (WaitReady []),
             Signal 2, AcceptorTurn (example_accept (Inr ()))]
            (startup 4 3 example_epfds) = Some r \<and> \<not> running r)
 \<and> (\<exists>r. run [AcceptorTurn (example_accept (Inr ())), WorkerTurn 0 (WaitReady [])]
            (signal_handler 15 (startup 4 3 example_epfds)) = Some r \<and> \<not> running r)"
proof -
  let ?s = "startup 4 3 example_epfds"
  let ?a = "AcceptorTurn (example_accept (Inr ()))"
  let ?w = "WorkerTurn 0 (WaitReady [])"
  have ok: "pool_ok ?s" by (rule startup_ok)
  hence ok': "pool_ok (signal_handler 15 ?s)" by (simp add: pool_ok_def signal_handler_frame)
  note t = running_flag_one_way
             [where s = ?s and nprocs = 4 and sfd = 3 and epfds = example_epfds and n = 15
                and env = "example_accept (Inr ())" and evs = "[?a, Signal 15, ?w, Signal 2, ?a]"]
  note u = running_flag_one_way
             [where s = "signal_handler 15 ?s" and evs = "[?a, ?w]"]
  have 1: "running ?s" by (rule t [THEN conjunct1])
  have 2: "\<not> running (signal_handler 15 ?s)" by (rule t [THEN conjunct2, THEN conjunct2, THEN conjunct1])
  have 7: "\<not> listening (signal_handler 15 ?s)" by (rule t [THEN conjunct2, THEN conjunct2, THEN conjunct2, THEN conjunct1])
  have "closed (trace (signal_handler 15 ?s)) = closed (trace ?s) @ [server_fd ?s]"
    by (rule t [THEN conjunct2, THEN conjunct2, THEN conjunct2, THEN conjunct2, THEN conjunct1])
  hence 3: "closed (trace (signal_handler 15 ?s)) = [3]"
    by (simp add: example_startup closed_def)
  have "map_option running (step ?a ?s) = Some (running ?s)"
    using t [THEN conjunct2, THEN conjunct2, THEN conjunct2, THEN conjunct2, THEN conjunct2, THEN conjunct2, THEN conjunct1] ok by (rule mp)
  with 1 have 4: "map_option running (step ?a ?s) = Some True" by simp
  have "Signal 15 \<in> set [?a, Signal 15, ?w, Signal 2, ?a]" by simp
  hence sig: "\<not> (\<forall>k. Signal k \<notin> set [?a, Signal 15, ?w, Signal 2, ?a])" by blast
  obtain r where r: "run [?a, Signal 15, ?w, Signal 2, ?a] ?s = Some r"
    "running r = (\<forall>k. Signal k \<notin> set [?a, Signal 15, ?w, Signal 2, ?a])"
    using t [THEN conjunct2, THEN conjunct2, THEN conjunct2, THEN conjunct2, THEN conjunct2, THEN conjunct2, THEN conjunct2, THEN conjunct1] by (elim exE conjE)
  have nr: "\<not> running r" unfolding r(2) by (rule sig)
  have 5: "\<exists>r. run [?a, Signal 15, ?w, Signal 2, ?a] ?s = Some r \<and> \<not> running r"
    using r(1) nr by blast
  have "pool_ok (signal_handler 15 ?s) \<and> \<not> running (signal_handler 15 ?s)"
    using ok' 2 by (rule conjI)
  hence 6: "\<exists>r. run [?a, ?w] (signal_handler 15 ?s) = Some r \<and> \<not> running r"
    by (rule u [THEN conjunct2, THEN conjunct2, THEN conjunct2, THEN conjunct2, THEN conjunct2,
                THEN conjunct2, THEN conjunct2, THEN conjunct2, THEN mp])
  from 1 2 7 3 4 5 6 show ?thesis by (intro conjI)
qed

end
